theory Spec2Isabelle
  imports Complex_Main
begin

section \<open>Values shared by the pipeline\<close>

text \<open>
  A Python float is modelled as \<open>real option\<close>: \<open>None\<close> is NaN (the "undefined"
  marker of the indicator), \<open>Some r\<close> a number. Rounding is abstracted away: arithmetic on
  numbers is exact. A timestamp is an integer count of microseconds since the epoch (the
  resolution of \<open>datetime\<close>), so that \<open>timedelta(minutes=m)\<close> is \<open>m * 60000000\<close>.
\<close>

type_synonym pyfloat = "real option"

type_synonym datetime = int

datatype error = ValueError string | RuntimeError string | OverflowError string

text \<open>Comparison of floats as Python does it: every comparison with NaN is false.\<close>

definition flt :: "pyfloat \<Rightarrow> pyfloat \<Rightarrow> bool" where
  "flt a b = (case a of None \<Rightarrow> False | Some x \<Rightarrow> (case b of None \<Rightarrow> False | Some y \<Rightarrow> x < y))"

definition fle :: "pyfloat \<Rightarrow> pyfloat \<Rightarrow> bool" where
  "fle a b = (case a of None \<Rightarrow> False | Some x \<Rightarrow> (case b of None \<Rightarrow> False | Some y \<Rightarrow> x \<le> y))"

definition fgt :: "pyfloat \<Rightarrow> pyfloat \<Rightarrow> bool" where
  "fgt a b = flt b a"

definition fge :: "pyfloat \<Rightarrow> pyfloat \<Rightarrow> bool" where
  "fge a b = fle b a"

text \<open>Arithmetic propagates NaN.\<close>

definition fadd :: "pyfloat \<Rightarrow> pyfloat \<Rightarrow> pyfloat" where
  "fadd a b = (case a of None \<Rightarrow> None | Some x \<Rightarrow> (case b of None \<Rightarrow> None | Some y \<Rightarrow> Some (x + y)))"

definition fhalf :: "pyfloat \<Rightarrow> pyfloat" where
  "fhalf a = (case a of None \<Rightarrow> None | Some x \<Rightarrow> Some (x / 2))"

text \<open>
  The builtins \<open>max(a, b)\<close> and \<open>min(a, b)\<close> of Python keep the first argument unless
  the second compares strictly greater (smaller); with a NaN the comparison is false.
\<close>

definition py_max :: "pyfloat \<Rightarrow> pyfloat \<Rightarrow> pyfloat" where
  "py_max a b = (if fgt b a then b else a)"

definition py_min :: "pyfloat \<Rightarrow> pyfloat \<Rightarrow> pyfloat" where
  "py_min a b = (if flt b a then b else a)"

section \<open>Candles and data frames\<close>

text \<open>
  A candle data frame is the list of its rows in order; the index is the field
  \<open>bar_time\<close>. The type excludes frames without a time index or without one of the
  OHLC columns, on which \<open>_prepare\<close> and \<open>_validate\<close> raise.
\<close>

record bar =
  bar_time :: datetime
  bar_open :: pyfloat
  bar_high :: pyfloat
  bar_low :: pyfloat
  bar_close :: pyfloat

text \<open>\<open>df.tail(n)\<close>: nothing for \<open>n = 0\<close>, else \<open>df.iloc[-n:]\<close>.\<close>

definition tail_df :: "int \<Rightarrow> 'a list \<Rightarrow> 'a list" where
  "tail_df n xs =
     (if n = 0 then []
      else if 0 < n then drop (length xs - nat n) xs
      else drop (nat (- n)) xs)"

text \<open>\<open>df.iloc[:k]\<close> and \<open>df.iloc[k:]\<close>, a negative \<open>k\<close> counting from the end.\<close>

definition iloc_to :: "int \<Rightarrow> 'a list \<Rightarrow> 'a list" where
  "iloc_to k xs = (if 0 \<le> k then take (nat k) xs else take (length xs - nat (- k)) xs)"

definition iloc_from :: "int \<Rightarrow> 'a list \<Rightarrow> 'a list" where
  "iloc_from k xs = (if 0 \<le> k then drop (nat k) xs else drop (length xs - nat (- k)) xs)"

definition has_na :: "bar \<Rightarrow> bool" where
  "has_na r = (bar_open r = None \<or> bar_high r = None \<or> bar_low r = None \<or> bar_close r = None)"

definition dropna :: "bar list \<Rightarrow> bar list" where
  "dropna df = filter (\<lambda>r. \<not> has_na r) df"

text \<open>
  \<open>sort_index\<close> is modelled as a stable sort; no statement below depends on the order
  in which rows of the same timestamp come out.
\<close>

definition sort_index :: "bar list \<Rightarrow> bar list" where
  "sort_index df = sort_key bar_time df"

section \<open>CandleBuffer (core/candle\_buffer.py)\<close>

record CandleBuffer =
  max_size :: int
  min_candles :: int
  data :: "bar list option"

definition DEFAULT_MIN :: int where
  "DEFAULT_MIN = 78"

definition CandleBuffer_init :: "int \<Rightarrow> int \<Rightarrow> error + CandleBuffer" where
  "CandleBuffer_init ms mc =
     (if ms < mc then Inl (ValueError ''max_size must be >= min_candles'')
      else Inr \<lparr>max_size = ms, min_candles = mc, data = None\<rparr>)"

text \<open>\<open>_prepare\<close>: drop the rows with a NaN, then sort by time.\<close>

definition prepare :: "bar list \<Rightarrow> bar list" where
  "prepare df = sort_index (dropna df)"

definition CandleBuffer_seed :: "CandleBuffer \<Rightarrow> bar list \<Rightarrow> CandleBuffer" where
  "CandleBuffer_seed b df = b\<lparr>data := Some (tail_df (max_size b) (prepare df))\<rparr>"

definition CandleBuffer_append :: "CandleBuffer \<Rightarrow> bar list \<Rightarrow> error + CandleBuffer" where
  "CandleBuffer_append b df =
     (case data b of
        None \<Rightarrow> Inl (RuntimeError ''Buffer has not been seeded'')
      | Some d \<Rightarrow>
          (let new = filter (\<lambda>r. bar_time r \<notin> set (map bar_time d)) (prepare df)
           in if new = [] then Inr b
              else Inr (b\<lparr>data := Some (tail_df (max_size b) (d @ new))\<rparr>)))"

definition CandleBuffer_data :: "CandleBuffer \<Rightarrow> error + bar list" where
  "CandleBuffer_data b =
     (case data b of None \<Rightarrow> Inl (RuntimeError ''Buffer has not been seeded'') | Some d \<Rightarrow> Inr d)"

definition is_ready :: "CandleBuffer \<Rightarrow> bool" where
  "is_ready b = (case data b of None \<Rightarrow> False | Some d \<Rightarrow> min_candles b \<le> int (length d))"

text \<open>A sequence of \<open>append\<close> calls, stopping at the first one that raises.\<close>

fun appends :: "CandleBuffer \<Rightarrow> bar list list \<Rightarrow> error + CandleBuffer" where
  "appends b [] = Inr b"
| "appends b (df # dfs) =
     (case CandleBuffer_append b df of Inl e \<Rightarrow> Inl e | Inr b' \<Rightarrow> appends b' dfs)"

section \<open>IchimokuIndicator (core/indicator.py)\<close>

record IchimokuConfig =
  tenkan_period :: int
  kijun_period :: int
  senkou_b_period :: int
  displacement :: int
  chikou_shift :: int

definition default_IchimokuConfig :: IchimokuConfig where
  "default_IchimokuConfig =
     \<lparr>tenkan_period = 9, kijun_period = 26, senkou_b_period = 52,
      displacement = 26, chikou_shift = 26\<rparr>"

record IchimokuIndicator =
  ind_cfg :: IchimokuConfig

text \<open>\<open>__init__\<close>: \<open>self.cfg = config or IchimokuConfig()\<close>; no field is checked.\<close>

definition IchimokuIndicator_init :: "IchimokuConfig option \<Rightarrow> error + IchimokuIndicator" where
  "IchimokuIndicator_init config =
     Inr \<lparr>ind_cfg = (case config of None \<Rightarrow> default_IchimokuConfig | Some c \<Rightarrow> c)\<rparr>"

subsection \<open>The pandas operations the calculator uses\<close>

definition list_max :: "real list \<Rightarrow> real" where
  "list_max ys = fold max (tl ys) (hd ys)"

definition list_min :: "real list \<Rightarrow> real" where
  "list_min ys = fold min (tl ys) (hd ys)"

text \<open>The \<open>w\<close> entries that end at position \<open>i\<close> (for \<open>w \<le> i + 1\<close>).\<close>

definition rolling_window :: "nat \<Rightarrow> nat \<Rightarrow> 'a list \<Rightarrow> 'a list" where
  "rolling_window w i xs = take w (drop (i + 1 - w) xs)"

text \<open>
  \<open>series.rolling(window=w).agg()\<close> with the default \<open>min_periods = w\<close>: pandas
  refuses a negative window and cannot convert a window beyond a 64-bit integer; a
  position is NaN unless its window holds \<open>w\<close> numbers, and an empty window (\<open>w = 0\<close>)
  is NaN.
\<close>

definition rolling :: "(real list \<Rightarrow> real) \<Rightarrow> int \<Rightarrow> pyfloat list \<Rightarrow> error + pyfloat list" where
  "rolling agg window xs =
     (if window < 0 then Inl (ValueError ''window must be an integer 0 or greater'')
      else if 9223372036854775808 \<le> window
        then Inl (OverflowError ''Python int too large to convert to C long'')
      else Inr (map (\<lambda>i. if window = 0 \<or> i + 1 < nat window then None
                         else (let w = rolling_window (nat window) i xs
                               in if None \<in> set w then None else Some (agg (map the w))))
                    [0..<length xs]))"

text \<open>
  \<open>series.shift(n)\<close>: forward for \<open>n \<ge> 0\<close>, backward otherwise, NaN filled in. A
  shift by 0 and a shift of an empty series return the series; otherwise the number of
  periods is converted to a 64-bit integer first.
\<close>

definition shift_values :: "int \<Rightarrow> pyfloat list \<Rightarrow> pyfloat list" where
  "shift_values n xs =
     (if 0 \<le> n then take (length xs) (replicate (nat n) None @ xs)
      else drop (nat (- n)) xs @ replicate (min (nat (- n)) (length xs)) None)"

definition shift :: "int \<Rightarrow> pyfloat list \<Rightarrow> error + pyfloat list" where
  "shift n xs =
     (if n = 0 \<or> xs = [] then Inr xs
      else if n < - 9223372036854775808 \<or> 9223372036854775808 \<le> n
        then Inl (OverflowError ''Python int too large to convert to C long'')
      else Inr (shift_values n xs))"

subsection \<open>calculate and latest\_values\<close>

definition midpoint :: "bar list \<Rightarrow> int \<Rightarrow> error + pyfloat list" where
  "midpoint df period =
     (case rolling list_max period (map bar_high df) of
        Inl e \<Rightarrow> Inl e
      | Inr hi \<Rightarrow>
          (case rolling list_min period (map bar_low df) of
             Inl e \<Rightarrow> Inl e
           | Inr lo \<Rightarrow> Inr (map (\<lambda>(h, l). fhalf (fadd h l)) (zip hi lo))))"

record ichimoku_frame =
  col_tenkan :: "pyfloat list"
  col_kijun :: "pyfloat list"
  col_senkou_a :: "pyfloat list"
  col_senkou_b :: "pyfloat list"
  col_chikou :: "pyfloat list"

definition calculate :: "IchimokuIndicator \<Rightarrow> bar list \<Rightarrow> error + ichimoku_frame" where
  "calculate self candles =
     (case midpoint candles (tenkan_period (ind_cfg self)) of
        Inl e \<Rightarrow> Inl e
      | Inr tenkan \<Rightarrow>
     (case midpoint candles (kijun_period (ind_cfg self)) of
        Inl e \<Rightarrow> Inl e
      | Inr kijun \<Rightarrow>
     (case midpoint candles (senkou_b_period (ind_cfg self)) of
        Inl e \<Rightarrow> Inl e
      | Inr senkou_b \<Rightarrow>
     (case shift (displacement (ind_cfg self))
             (map (\<lambda>(t, k). fhalf (fadd t k)) (zip tenkan kijun)) of
        Inl e \<Rightarrow> Inl e
      | Inr senkou_a \<Rightarrow>
     (case shift (displacement (ind_cfg self)) senkou_b of
        Inl e \<Rightarrow> Inl e
      | Inr senkou_b_shifted \<Rightarrow>
     (case shift (- chikou_shift (ind_cfg self)) (map bar_close candles) of
        Inl e \<Rightarrow> Inl e
      | Inr chikou \<Rightarrow>
          Inr \<lparr>col_tenkan = tenkan,
               col_kijun = kijun,
               col_senkou_a = senkou_a,
               col_senkou_b = senkou_b_shifted,
               col_chikou = chikou\<rparr>))))))"

record indicators =
  tenkan :: pyfloat
  kijun :: pyfloat
  senkou_a :: pyfloat
  senkou_b :: pyfloat
  chikou :: pyfloat
  close :: pyfloat
  cloud_top :: pyfloat
  cloud_bottom :: pyfloat
  prev_tenkan :: pyfloat
  prev_kijun :: pyfloat
  prev_senkou_a :: pyfloat
  prev_senkou_b :: pyfloat
  prev_chikou :: pyfloat
  prev_close :: pyfloat
  prev_cloud_top :: pyfloat
  prev_cloud_bottom :: pyfloat

definition nan_dict :: indicators where
  "nan_dict =
     \<lparr>tenkan = None, kijun = None, senkou_a = None, senkou_b = None, chikou = None,
      close = None, cloud_top = None, cloud_bottom = None,
      prev_tenkan = None, prev_kijun = None, prev_senkou_a = None, prev_senkou_b = None,
      prev_chikou = None, prev_close = None, prev_cloud_top = None,
      prev_cloud_bottom = None\<rparr>"

text \<open>
  \<open>latest_values\<close>: the rows \<open>iloc[-1]\<close> and \<open>iloc[-2]\<close> of the calculated frame. The
  frame is calculated first, so an error of \<open>calculate\<close> comes before the length test.
\<close>

definition latest_values :: "IchimokuIndicator \<Rightarrow> bar list \<Rightarrow> error + indicators" where
  "latest_values self candles =
     (case calculate self candles of
        Inl e \<Rightarrow> Inl e
      | Inr ichi \<Rightarrow>
          if length candles < 2 then Inr nan_dict
          else
            (let cur = length candles - 1; prev = length candles - 2
             in Inr \<lparr>tenkan = col_tenkan ichi ! cur,
                     kijun = col_kijun ichi ! cur,
                     senkou_a = col_senkou_a ichi ! cur,
                     senkou_b = col_senkou_b ichi ! cur,
                     chikou = col_chikou ichi ! cur,
                     close = bar_close (candles ! cur),
                     cloud_top = py_max (col_senkou_a ichi ! cur) (col_senkou_b ichi ! cur),
                     cloud_bottom = py_min (col_senkou_a ichi ! cur) (col_senkou_b ichi ! cur),
                     prev_tenkan = col_tenkan ichi ! prev,
                     prev_kijun = col_kijun ichi ! prev,
                     prev_senkou_a = col_senkou_a ichi ! prev,
                     prev_senkou_b = col_senkou_b ichi ! prev,
                     prev_chikou = col_chikou ichi ! prev,
                     prev_close = bar_close (candles ! prev),
                     prev_cloud_top =
                       py_max (col_senkou_a ichi ! prev) (col_senkou_b ichi ! prev),
                     prev_cloud_bottom =
                       py_min (col_senkou_a ichi ! prev) (col_senkou_b ichi ! prev)\<rparr>))"

section \<open>SignalDetector (core/signal\_detector.py)\<close>

record Signal =
  pair :: string
  timeframe :: string
  signal_type :: string
  direction :: string
  timestamp :: datetime
  price :: pyfloat
  details :: "(string \<times> pyfloat) list"

record DetectorConfig =
  cooldown_minutes :: int
  cloud_filter :: bool
  strong_signal_only :: bool

definition default_DetectorConfig :: DetectorConfig where
  "default_DetectorConfig =
     \<lparr>cooldown_minutes = 30, cloud_filter = True, strong_signal_only = False\<rparr>"

type_synonym CooldownKey = "string \<times> string \<times> string"

record SignalDetector =
  det_cfg :: DetectorConfig
  enabled :: "string set"
  last_signal_time :: "CooldownKey \<rightharpoonup> datetime"

definition ALL_SIGNALS :: "string set" where
  "ALL_SIGNALS =
     set [''tk_cross_up'', ''tk_cross_down'', ''kumo_breakout_up'', ''kumo_breakout_down'',
          ''chikou_cross_up'', ''chikou_cross_down'']"

definition SignalDetector_init :: "DetectorConfig option \<Rightarrow> string set option \<Rightarrow> SignalDetector" where
  "SignalDetector_init config enabled_signals =
     \<lparr>det_cfg = (case config of None \<Rightarrow> default_DetectorConfig | Some c \<Rightarrow> c),
      enabled = (case enabled_signals of None \<Rightarrow> ALL_SIGNALS | Some e \<Rightarrow> e),
      last_signal_time = Map.empty\<rparr>"

subsection \<open>The six rules\<close>

type_synonym rule = "DetectorConfig \<Rightarrow> indicators \<Rightarrow> bool \<times> (string \<times> pyfloat) list"

definition tk_cross_up :: rule where
  "tk_cross_up c ind =
     (if \<not> (fle (prev_tenkan ind) (prev_kijun ind) \<and> fgt (tenkan ind) (kijun ind))
      then (False, [])
      else if cloud_filter c \<and> flt (close ind) (cloud_top ind) then (False, [])
      else (True, [(''tenkan'', tenkan ind), (''kijun'', kijun ind),
                   (''cloud_top'', cloud_top ind)]))"

definition tk_cross_down :: rule where
  "tk_cross_down c ind =
     (if \<not> (fge (prev_tenkan ind) (prev_kijun ind) \<and> flt (tenkan ind) (kijun ind))
      then (False, [])
      else if cloud_filter c \<and> fgt (close ind) (cloud_bottom ind) then (False, [])
      else (True, [(''tenkan'', tenkan ind), (''kijun'', kijun ind),
                   (''cloud_bottom'', cloud_bottom ind)]))"

definition kumo_breakout_up :: rule where
  "kumo_breakout_up c ind =
     (let fired = (fle (prev_close ind) (prev_cloud_top ind) \<and> fgt (close ind) (cloud_top ind))
      in (fired, if fired then [(''cloud_top'', cloud_top ind)] else []))"

definition kumo_breakout_down :: rule where
  "kumo_breakout_down c ind =
     (let fired =
            (fge (prev_close ind) (prev_cloud_bottom ind) \<and> flt (close ind) (cloud_bottom ind))
      in (fired, if fired then [(''cloud_bottom'', cloud_bottom ind)] else []))"

definition chikou_cross_up :: rule where
  "chikou_cross_up c ind =
     (let fired = (fle (prev_chikou ind) (prev_close ind) \<and> fgt (chikou ind) (prev_close ind))
      in (fired, if fired then [(''chikou'', chikou ind), (''ref_close'', prev_close ind)]
                 else []))"

definition chikou_cross_down :: rule where
  "chikou_cross_down c ind =
     (let fired = (fge (prev_chikou ind) (prev_close ind) \<and> flt (chikou ind) (prev_close ind))
      in (fired, if fired then [(''chikou'', chikou ind), (''ref_close'', prev_close ind)]
                 else []))"

definition rules :: "(string \<times> rule) list" where
  "rules =
     [(''tk_cross_up'', tk_cross_up),
      (''tk_cross_down'', tk_cross_down),
      (''kumo_breakout_up'', kumo_breakout_up),
      (''kumo_breakout_down'', kumo_breakout_down),
      (''chikou_cross_up'', chikou_cross_up),
      (''chikou_cross_down'', chikou_cross_down)]"

subsection \<open>Cooldown registry\<close>

text \<open>
  \<open>timedelta(minutes=m)\<close>, in microseconds: a \<open>timedelta\<close> holds at most 999999999 days
  in either direction, and its constructor raises beyond.
\<close>

definition timedelta_minutes :: "int \<Rightarrow> error + int" where
  "timedelta_minutes m =
     (if m < - 1439999998560 \<or> 1439999999999 < m
      then Inl (OverflowError ''days must have magnitude <= 999999999'')
      else Inr (m * 60000000))"

text \<open>
  \<open>_on_cooldown\<close>: the \<open>timedelta\<close> is built only when the key has a registered time.
\<close>

definition on_cooldown ::
  "SignalDetector \<Rightarrow> string \<Rightarrow> string \<Rightarrow> string \<Rightarrow> datetime \<Rightarrow> error + bool" where
  "on_cooldown self p tf st now =
     (case last_signal_time self (p, tf, st) of
        None \<Rightarrow> Inr False
      | Some last_time \<Rightarrow>
          (case timedelta_minutes (cooldown_minutes (det_cfg self)) of
             Inl e \<Rightarrow> Inl e
           | Inr cooldown \<Rightarrow> Inr (now - last_time < cooldown)))"

definition record_signal :: "SignalDetector \<Rightarrow> string \<Rightarrow> string \<Rightarrow> string \<Rightarrow> datetime \<Rightarrow> SignalDetector" where
  "record_signal self p tf st now =
     self\<lparr>last_signal_time := (last_signal_time self)((p, tf, st) \<mapsto> now)\<rparr>"

definition has_nan :: "indicators \<Rightarrow> bool" where
  "has_nan ind =
     (None \<in> set [tenkan ind, kijun ind, senkou_a ind, senkou_b ind, chikou ind, close ind,
                  cloud_top ind, cloud_bottom ind, prev_tenkan ind, prev_kijun ind,
                  prev_senkou_a ind, prev_senkou_b ind, prev_chikou ind, prev_close ind,
                  prev_cloud_top ind, prev_cloud_bottom ind])"

subsection \<open>check\<close>

definition endswith :: "string \<Rightarrow> string \<Rightarrow> bool" where
  "endswith s suffix = (length suffix \<le> length s \<and> drop (length s - length suffix) s = suffix)"

text \<open>
  The loop of \<open>check\<close> over the rule table: the detector (its registry) and the list of
  signals collected so far are the loop state. When \<open>_on_cooldown\<close> raises, the call
  ends with the exception; the detector object keeps what the loop had registered until
  then, so the error is returned together with the detector.
\<close>

fun check_loop ::
  "(string \<times> rule) list \<Rightarrow> string \<Rightarrow> string \<Rightarrow> indicators \<Rightarrow> datetime \<Rightarrow>
   SignalDetector \<Rightarrow> Signal list \<Rightarrow>
   error \<times> SignalDetector + Signal list \<times> SignalDetector" where
  "check_loop [] p tf ind candle_time self signals = Inr (signals, self)"
| "check_loop ((st, rule_fn) # rs) p tf ind candle_time self signals =
     (if st \<notin> enabled self then check_loop rs p tf ind candle_time self signals
      else if \<not> fst (rule_fn (det_cfg self) ind)
        then check_loop rs p tf ind candle_time self signals
      else
        (case on_cooldown self p tf st candle_time of
           Inl e \<Rightarrow> Inl (e, self)
         | Inr True \<Rightarrow> check_loop rs p tf ind candle_time self signals
         | Inr False \<Rightarrow>
             check_loop rs p tf ind candle_time
               (record_signal self p tf st candle_time)
               (signals @
                  [\<lparr>pair = p, timeframe = tf, signal_type = st,
                    direction = (if endswith st ''_up'' then ''BUY'' else ''SELL''),
                    timestamp = candle_time, price = close ind,
                    details = snd (rule_fn (det_cfg self) ind)\<rparr>])))"

definition check ::
  "SignalDetector \<Rightarrow> string \<Rightarrow> string \<Rightarrow> indicators \<Rightarrow> datetime \<Rightarrow>
   error \<times> SignalDetector + Signal list \<times> SignalDetector" where
  "check self p tf ind candle_time =
     (if has_nan ind then Inr ([], self) else check_loop rules p tf ind candle_time self [])"

section \<open>BacktestEngine (backtest/engine.py)\<close>

record BacktestConfig =
  ichimoku :: IchimokuConfig
  detector :: DetectorConfig
  warmup_candles :: int
  buffer_size :: int

definition default_BacktestConfig :: BacktestConfig where
  "default_BacktestConfig =
     \<lparr>ichimoku = default_IchimokuConfig, detector = default_DetectorConfig,
      warmup_candles = 100, buffer_size = 300\<rparr>"

text \<open>
  One turn of the replay loop: append the candle, stop there unless the buffer is ready,
  compute the indicators on the buffer (an exception skips the candle), check the
  signals (an exception of \<open>check\<close> is not caught and ends the run). The state is the
  buffer, the detector and the signals collected so far.
\<close>

definition replay_step ::
  "string \<Rightarrow> string \<Rightarrow> IchimokuIndicator \<Rightarrow> CandleBuffer \<times> SignalDetector \<times> Signal list \<Rightarrow> bar \<Rightarrow>
   error + CandleBuffer \<times> SignalDetector \<times> Signal list" where
  "replay_step symbol tf indicator st row =
     (case st of (buffer, det, all_signals) \<Rightarrow>
        (case CandleBuffer_append buffer [row] of
           Inl e \<Rightarrow> Inl e
         | Inr buffer' \<Rightarrow>
             if \<not> is_ready buffer' then Inr (buffer', det, all_signals)
             else
               (case CandleBuffer_data buffer' of
                  Inl e \<Rightarrow> Inl e
                | Inr window \<Rightarrow>
                    (case latest_values indicator window of
                       Inl e \<Rightarrow> Inr (buffer', det, all_signals)
                     | Inr ind_values \<Rightarrow>
                         (case check det symbol tf ind_values (bar_time row) of
                            Inl (e, det') \<Rightarrow> Inl e
                          | Inr (signals, det') \<Rightarrow>
                              Inr (buffer', det', all_signals @ signals))))))"

fun replay_loop ::
  "string \<Rightarrow> string \<Rightarrow> IchimokuIndicator \<Rightarrow> CandleBuffer \<times> SignalDetector \<times> Signal list \<Rightarrow> bar list \<Rightarrow>
   error + CandleBuffer \<times> SignalDetector \<times> Signal list" where
  "replay_loop symbol tf indicator st [] = Inr st"
| "replay_loop symbol tf indicator st (row # rows) =
     (case replay_step symbol tf indicator st row of
        Inl e \<Rightarrow> Inl e
      | Inr st' \<Rightarrow> replay_loop symbol tf indicator st' rows)"

definition run ::
  "BacktestConfig \<Rightarrow> string \<Rightarrow> string \<Rightarrow> bar list \<Rightarrow> string set option \<Rightarrow> error + Signal list" where
  "run cfg symbol tf candles enabled_signals =
     (if int (length candles) \<le> warmup_candles cfg then Inl (ValueError ''Not enough candles for backtest'')
      else
        (case CandleBuffer_init (buffer_size cfg) DEFAULT_MIN of
           Inl e \<Rightarrow> Inl e
         | Inr buffer \<Rightarrow>
             (case IchimokuIndicator_init (Some (ichimoku cfg)) of
                Inl e \<Rightarrow> Inl e
              | Inr indicator \<Rightarrow>
                  (case replay_loop symbol tf indicator
                          (CandleBuffer_seed buffer (iloc_to (warmup_candles cfg) candles),
                           SignalDetector_init (Some (detector cfg)) enabled_signals, [])
                          (iloc_from (warmup_candles cfg) candles) of
                     Inl e \<Rightarrow> Inl e
                   | Inr (buffer', det', all_signals) \<Rightarrow> Inr all_signals))))"

record BacktestEngine =
  cfg :: BacktestConfig

definition BacktestEngine_init :: "BacktestConfig option \<Rightarrow> BacktestEngine" where
  "BacktestEngine_init config =
     \<lparr>cfg = (case config of None \<Rightarrow> default_BacktestConfig | Some c \<Rightarrow> c)\<rparr>"

text \<open>
  The method \<open>run\<close> on an engine object, with the object after the call returned beside
  the result: \<open>run\<close> assigns to no attribute of \<open>self\<close>.
\<close>

definition BacktestEngine_run ::
  "BacktestEngine \<Rightarrow> string \<Rightarrow> string \<Rightarrow> bar list \<Rightarrow> string set option \<Rightarrow>
   (error + Signal list) \<times> BacktestEngine" where
  "BacktestEngine_run self symbol tf candles enabled_signals =
     (run (cfg self) symbol tf candles enabled_signals, self)"

section \<open>Vocabulary of the statements\<close>

text \<open>A candle whose four prices are the same number.\<close>

definition flat_bar :: "datetime \<Rightarrow> real \<Rightarrow> bar" where
  "flat_bar t c =
     \<lparr>bar_time = t, bar_open = Some c, bar_high = Some c, bar_low = Some c,
      bar_close = Some c\<rparr>"

definition flat_bars :: "nat \<Rightarrow> bar list" where
  "flat_bars n = map (\<lambda>i. flat_bar (int i) 1) [0..<n]"



definition default_buffer :: CandleBuffer where
  "default_buffer = \<lparr>max_size = 300, min_candles = 78, data = None\<rparr>"

definition small_buffer :: CandleBuffer where
  "small_buffer = \<lparr>max_size = 2, min_candles = 2, data = None\<rparr>"

text \<open>
  What one turn of the loop of \<open>check\<close> does for a rule, read off the loop body: the rule
  emits when it is enabled, its condition holds and its key is not on cooldown, and
  \<open>signal_of\<close> is the signal it then appends.
\<close>

definition rule_emits ::
  "SignalDetector \<Rightarrow> string \<Rightarrow> string \<Rightarrow> indicators \<Rightarrow> datetime \<Rightarrow> string \<times> rule \<Rightarrow> bool" where
  "rule_emits self p tf ind now r =
     (fst r \<in> enabled self \<and> fst (snd r (det_cfg self) ind) \<and>
      on_cooldown self p tf (fst r) now = Inr False)"

definition signal_of ::
  "SignalDetector \<Rightarrow> string \<Rightarrow> string \<Rightarrow> indicators \<Rightarrow> datetime \<Rightarrow> string \<times> rule \<Rightarrow> Signal" where
  "signal_of self p tf ind now r =
     \<lparr>pair = p, timeframe = tf, signal_type = fst r,
      direction = (if endswith (fst r) ''_up'' then ''BUY'' else ''SELL''),
      timestamp = now, price = close ind, details = snd (snd r (det_cfg self) ind)\<rparr>"

text \<open>
  Concrete inputs: a snapshot on which the cloud breakout up fires, a detector that has
  registered that kind at time 0, and a replay of 79 candles whose last close jumps.
\<close>

definition breakout_snapshot :: indicators where
  "breakout_snapshot =
     \<lparr>tenkan = Some 1, kijun = Some 1, senkou_a = Some 1, senkou_b = Some 1, chikou = Some 1,
      close = Some 2, cloud_top = Some 1, cloud_bottom = Some 1,
      prev_tenkan = Some 1, prev_kijun = Some 1, prev_senkou_a = Some 1, prev_senkou_b = Some 1,
      prev_chikou = Some 1, prev_close = Some 1, prev_cloud_top = Some 1,
      prev_cloud_bottom = Some 1\<rparr>"

definition fired_detector :: SignalDetector where
  "fired_detector =
     record_signal (SignalDetector_init None None) ''EURUSD'' ''H1'' ''kumo_breakout_up'' 0"

definition demo_config :: BacktestConfig where
  "demo_config =
     \<lparr>ichimoku = \<lparr>tenkan_period = 1, kijun_period = 1, senkou_b_period = 1,
                   displacement = 1, chikou_shift = 0\<rparr>,
      detector = default_DetectorConfig, warmup_candles = 77, buffer_size = 300\<rparr>"

definition demo_candles :: "bar list" where
  "demo_candles = flat_bars 78 @ [flat_bar 78 2]"

definition demo_signals :: "Signal list" where
  "demo_signals =
     [\<lparr>pair = ''EURUSD'', timeframe = ''H1'', signal_type = ''kumo_breakout_up'',
       direction = ''BUY'', timestamp = 78, price = Some 2,
       details = [(''cloud_top'', Some 1)]\<rparr>,
      \<lparr>pair = ''EURUSD'', timeframe = ''H1'', signal_type = ''chikou_cross_up'',
       direction = ''BUY'', timestamp = 78, price = Some 2,
       details = [(''chikou'', Some 2), (''ref_close'', Some 1)]\<rparr>]"

text \<open>A snapshot in which each of the sixteen values is a number.\<close>

definition defined_snapshot :: "indicators \<Rightarrow> bool" where
  "defined_snapshot ind =
     (tenkan ind \<noteq> None \<and> kijun ind \<noteq> None \<and> senkou_a ind \<noteq> None \<and> senkou_b ind \<noteq> None \<and>
      chikou ind \<noteq> None \<and> close ind \<noteq> None \<and> cloud_top ind \<noteq> None \<and>
      cloud_bottom ind \<noteq> None \<and> prev_tenkan ind \<noteq> None \<and> prev_kijun ind \<noteq> None \<and>
      prev_senkou_a ind \<noteq> None \<and> prev_senkou_b ind \<noteq> None \<and> prev_chikou ind \<noteq> None \<and>
      prev_close ind \<noteq> None \<and> prev_cloud_top ind \<noteq> None \<and> prev_cloud_bottom ind \<noteq> None)"




definition used_detector :: SignalDetector where
  "used_detector =
     record_signal
       (record_signal (SignalDetector_init (Some (detector demo_config)) None)
          ''EURUSD'' ''H1'' ''kumo_breakout_up'' 78)
       ''EURUSD'' ''H1'' ''chikou_cross_up'' 78"



section \<open>Python's max and min on an undefined value\<close>

lemma py_max_nan_first: "py_max None b = None"
  by (simp add: py_max_def fgt_def flt_def split: option.splits)

lemma py_max_nan_second: "py_max (Some x) None = Some x"
  by (simp add: py_max_def fgt_def flt_def)

lemma py_min_nan_first: "py_min None b = None"
  by (simp add: py_min_def flt_def split: option.splits)

lemma py_min_nan_second: "py_min (Some x) None = Some x"
  by (simp add: py_min_def flt_def)

text \<open>
  C4. The claim is that cloud top and cloud bottom are undefined whenever either senkou
  line is undefined. With the default periods and 52 candles, senkou A of the newest
  position is a number and senkou B is undefined, and \<open>latest_values\<close> reports both
  cloud top and cloud bottom as that number: \<open>max\<close> and \<open>min\<close> return their first
  argument when the second is NaN.
\<close>

theorem cloud_defined_despite_undefined_senkou_b:
  "map_sum id (\<lambda>v. (senkou_a v, senkou_b v, cloud_top v, cloud_bottom v))
     (latest_values \<lparr>ind_cfg = default_IchimokuConfig\<rparr> (flat_bars 52))
   = Inr (Some 1, None, Some 1, Some 1)"
  by code_simp


section \<open>Indicator configuration and short histories\<close>


lemma rolling_ok:
  "0 \<le> w \<Longrightarrow> w < 9223372036854775808 \<Longrightarrow> \<exists>ys. rolling agg w xs = Inr ys"
  by (simp add: rolling_def)







lemma latest_values_short:
  "length candles < 2 \<Longrightarrow> latest_values self candles = Inr v \<Longrightarrow> v = nan_dict"
  by (auto simp: latest_values_def split: sum.splits)

lemma has_nan_nan_dict: "has_nan nan_dict"
  by (simp add: has_nan_def nan_dict_def)





section \<open>What check emits and what it registers\<close>

lemma has_nan_iff: "has_nan ind \<longleftrightarrow> \<not> defined_snapshot ind"
  by (auto simp: has_nan_def defined_snapshot_def)



lemma on_cooldown_record_signal:
  "st \<noteq> st' \<Longrightarrow>
   on_cooldown (record_signal self p tf st t) p tf st' now = on_cooldown self p tf st' now"
  by (simp add: on_cooldown_def record_signal_def split: option.splits)

lemma rule_emits_record_signal:
  "st \<noteq> fst r \<Longrightarrow>
   rule_emits (record_signal self p tf st now) p tf ind now r = rule_emits self p tf ind now r"
  by (simp add: rule_emits_def on_cooldown_record_signal) (simp add: record_signal_def)

lemma signal_of_record_signal:
  "signal_of (record_signal self p tf st now) p tf ind now r = signal_of self p tf ind now r"
  by (simp add: signal_of_def record_signal_def)

lemma check_loop_char:
  assumes "distinct (map fst rs)"
    and "check_loop rs p tf ind now self acc = Inr (sigs, self')"
  shows "sigs = acc @ map (signal_of self p tf ind now) (filter (rule_emits self p tf ind now) rs) \<and>
     self' = self\<lparr>last_signal_time :=
             (\<lambda>k. if k \<in> (\<lambda>r. (p, tf, fst r)) ` set (filter (rule_emits self p tf ind now) rs)
                  then Some now else last_signal_time self k)\<rparr> \<and>
     (\<forall>r\<in>set rs. fst r \<in> enabled self \<and> fst (snd r (det_cfg self) ind)
        \<longrightarrow> (\<exists>x. on_cooldown self p tf (fst r) now = Inr x))"
  using assms
proof (induction rs arbitrary: self acc)
  case Nil
  then show ?case by simp
next
  case (Cons r rs)
  obtain st fn where r: "r = (st, fn)" by (cases r)
  from Cons.prems(1) have d: "distinct (map fst rs)" and nin: "st \<notin> fst ` set rs"
    by (auto simp: r)
  show ?case
  proof (cases "st \<in> enabled self \<and> fst (fn (det_cfg self) ind)")
    case False
    then have l: "check_loop rs p tf ind now self acc = Inr (sigs, self')"
      using Cons.prems(2) by (auto simp: r split: if_splits)
    from False have ne: "\<not> rule_emits self p tf ind now r"
      by (auto simp: rule_emits_def r)
    from Cons.IH [OF d l] ne False show ?thesis
      by (auto simp: r)
  next
    case en: True
    show ?thesis
    proof (cases "on_cooldown self p tf st now")
      case (Inl e)
      with en Cons.prems(2) show ?thesis by (simp add: r)
    next
      case (Inr x)
      show ?thesis
      proof (cases x)
        case True
        with Inr en have l: "check_loop rs p tf ind now self acc = Inr (sigs, self')"
          using Cons.prems(2) by (simp add: r)
        from True Inr have ne: "\<not> rule_emits self p tf ind now r"
          by (simp add: rule_emits_def r)
        from Cons.IH [OF d l] ne Inr show ?thesis
          by (auto simp: r)
      next
        case False
        let ?s1 = "record_signal self p tf st now"
        from False Inr en have em: "rule_emits self p tf ind now r"
          by (simp add: rule_emits_def r)
        have l: "check_loop rs p tf ind now ?s1 (acc @ [signal_of self p tf ind now r]) = Inr (sigs, self')"
          using Cons.prems(2) False Inr en by (simp add: r signal_of_def)
        have same: "filter (rule_emits ?s1 p tf ind now) rs = filter (rule_emits self p tf ind now) rs"
          using nin by (intro filter_cong refl rule_emits_record_signal) auto
        have sig: "map (signal_of ?s1 p tf ind now) xs = map (signal_of self p tf ind now) xs" for xs
          by (simp add: signal_of_record_signal)
        note ih = Cons.IH [OF d l, unfolded same sig]
        have reg: "?s1\<lparr>last_signal_time :=
                 (\<lambda>k. if k \<in> (\<lambda>r. (p, tf, fst r)) ` set (filter (rule_emits self p tf ind now) rs)
                      then Some now else last_signal_time ?s1 k)\<rparr>
             = self\<lparr>last_signal_time :=
                 (\<lambda>k. if k \<in> (\<lambda>r. (p, tf, fst r)) ` set (filter (rule_emits self p tf ind now) (r # rs))
                      then Some now else last_signal_time self k)\<rparr>"
          using em by (auto simp: record_signal_def r fun_eq_iff)
        have oc: "\<exists>x. on_cooldown self p tf (fst r') now = Inr x"
          if "r' \<in> set (r # rs)" "fst r' \<in> enabled self" "fst (snd r' (det_cfg self) ind)" for r'
        proof (cases "r' = r")
          case True
          with Inr show ?thesis by (simp add: r)
        next
          case False
          with that(1) have in_rs: "r' \<in> set rs" by simp
          with nin have "st \<noteq> fst r'" by auto
          from on_cooldown_record_signal [OF this, of self p tf now now]
            ih [THEN conjunct2, THEN conjunct2, rule_format, OF in_rs] that(2,3)
          show ?thesis by (simp add: record_signal_def)
        qed
        from ih [THEN conjunct1] have s: "sigs = acc @ map (signal_of self p tf ind now)
            (filter (rule_emits self p tf ind now) (r # rs))"
          using em by simp
        from ih [THEN conjunct2, THEN conjunct1] have s': "self' = self\<lparr>last_signal_time :=
                 (\<lambda>k. if k \<in> (\<lambda>r. (p, tf, fst r)) ` set (filter (rule_emits self p tf ind now) (r # rs))
                      then Some now else last_signal_time self k)\<rparr>"
          unfolding reg .
        from s s' oc show ?thesis by blast
      qed
    qed
  qed
qed

lemma check_loop_returns:
  "timedelta_minutes (cooldown_minutes (det_cfg self)) = Inr td \<Longrightarrow>
   \<exists>res. check_loop rs p tf ind now self acc = Inr res"
proof (induction rs arbitrary: self acc)
  case Nil
  show ?case by simp
next
  case (Cons r rs)
  obtain st fn where r: "r = (st, fn)" by (cases r)
  from Cons.prems obtain x where x: "on_cooldown self p tf st now = Inr x"
    by (cases "last_signal_time self (p, tf, st)") (auto simp: on_cooldown_def)
  have c: "det_cfg (record_signal self p tf st now) = det_cfg self"
    by (simp add: record_signal_def)
  from Cons.IH [of self acc] Cons.IH [of "record_signal self p tf st now"] Cons.prems c x
  show ?case
    by (cases x) (auto simp: r)
qed

lemma distinct_rule_names: "distinct (map fst rules)"
  by (simp add: rules_def)

lemma check_char:
  assumes "\<not> has_nan ind" and "check self p tf ind now = Inr (sigs, self')"
  shows "sigs = map (signal_of self p tf ind now) (filter (rule_emits self p tf ind now) rules) \<and>
     self' = self\<lparr>last_signal_time :=
             (\<lambda>k. if k \<in> (\<lambda>r. (p, tf, fst r)) ` set (filter (rule_emits self p tf ind now) rules)
                  then Some now else last_signal_time self k)\<rparr> \<and>
     (\<forall>r\<in>set rules. fst r \<in> enabled self \<and> fst (snd r (det_cfg self) ind)
        \<longrightarrow> (\<exists>x. on_cooldown self p tf (fst r) now = Inr x))"
  using check_loop_char [OF distinct_rule_names, of p tf ind now self "[]" sigs self'] assms
  by (simp add: check_def)

lemma check_returns:
  "timedelta_minutes (cooldown_minutes (det_cfg self)) = Inr td \<Longrightarrow>
   \<exists>res. check self p tf ind now = Inr res"
  using check_loop_returns [of self td rules p tf ind now "[]"]
  by (simp add: check_def)

lemma signal_type_signal_of [simp]: "signal_type (signal_of self p tf ind now r) = fst r"
  by (simp add: signal_of_def)

lemma timestamp_signal_of [simp]: "timestamp (signal_of self p tf ind now r) = now"
  by (simp add: signal_of_def)

lemma check_types:
  assumes "\<not> has_nan ind" and "check self p tf ind now = Inr (sigs, self')"
  shows "signal_type ` set sigs = fst ` set (filter (rule_emits self p tf ind now) rules)"
  using check_char [OF assms, THEN conjunct1] by (simp add: image_image)

lemma check_emits_iff:
  assumes "\<not> has_nan ind" and "check self p tf ind now = Inr (sigs, self')"
    and "(st, rule_fn) \<in> set rules"
  shows "st \<in> signal_type ` set sigs \<longleftrightarrow> rule_emits self p tf ind now (st, rule_fn)"
proof -
  have uniq: "r = (st, rule_fn)" if "r \<in> set rules" and "fst r = st" for r
    using eq_key_imp_eq_value [OF distinct_rule_names, of st "snd r" rule_fn] that assms(3)
    by (cases r) auto
  have "st \<in> signal_type ` set sigs
        \<longleftrightarrow> (\<exists>r\<in>set rules. rule_emits self p tf ind now r \<and> fst r = st)"
    unfolding check_types [OF assms(1,2)] by auto
  also have "\<dots> \<longleftrightarrow> rule_emits self p tf ind now (st, rule_fn)"
  proof
    assume "\<exists>r\<in>set rules. rule_emits self p tf ind now r \<and> fst r = st"
    then obtain r where "r \<in> set rules" "rule_emits self p tf ind now r" "fst r = st"
      by blast
    with uniq [of r] show "rule_emits self p tf ind now (st, rule_fn)" by simp
  next
    assume "rule_emits self p tf ind now (st, rule_fn)"
    with assms(3) show "\<exists>r\<in>set rules. rule_emits self p tf ind now r \<and> fst r = st"
      by force
  qed
  finally show ?thesis .
qed


text \<open>
  C5. When any of the sixteen values of the snapshot is undefined (in particular one that
  an enabled rule reads), \<open>check\<close> returns no signal and leaves the detector as it was:
  no rule is evaluated. The skip is for undefined values only: on a snapshot of sixteen
  numbers an enabled rule whose condition holds and whose key has no registered time does
  emit. A snapshot computed from fewer than two candles has every field undefined, and
  checking it returns the empty list.
\<close>

theorem skip_on_undefined:
  "(tenkan ind = None \<or> kijun ind = None \<or> senkou_a ind = None \<or> senkou_b ind = None \<or>
    chikou ind = None \<or> close ind = None \<or> cloud_top ind = None \<or> cloud_bottom ind = None \<or>
    prev_tenkan ind = None \<or> prev_kijun ind = None \<or> prev_senkou_a ind = None \<or>
    prev_senkou_b ind = None \<or> prev_chikou ind = None \<or> prev_close ind = None \<or>
    prev_cloud_top ind = None \<or> prev_cloud_bottom ind = None
      \<longrightarrow> check self p tf ind now = Inr ([], self)) \<and>
   (defined_snapshot ind \<and> (st, rule_fn) \<in> set rules \<and> st \<in> enabled self \<and>
    fst (rule_fn (det_cfg self) ind) \<and> last_signal_time self (p, tf, st) = None \<and>
    check self p tf ind now = Inr (sigs, self')
      \<longrightarrow> st \<in> signal_type ` set sigs) \<and>
   (length candles < 2 \<and> latest_values indicator candles = Inr v
      \<longrightarrow> tenkan v = None \<and> kijun v = None \<and> senkou_a v = None \<and> senkou_b v = None \<and>
          chikou v = None \<and> close v = None \<and> cloud_top v = None \<and> cloud_bottom v = None \<and>
          prev_tenkan v = None \<and> prev_kijun v = None \<and> prev_senkou_a v = None \<and>
          prev_senkou_b v = None \<and> prev_chikou v = None \<and> prev_close v = None \<and>
          prev_cloud_top v = None \<and> prev_cloud_bottom v = None \<and>
          check self p tf v now = Inr ([], self))"
proof -
  have skip: "check self p tf ind now = Inr ([], self)" if "\<not> defined_snapshot ind" for ind
    using that by (simp add: check_def has_nan_iff)
  have a: "check self p tf ind now = Inr ([], self)"
    if "tenkan ind = None \<or> kijun ind = None \<or> senkou_a ind = None \<or> senkou_b ind = None \<or>
    chikou ind = None \<or> close ind = None \<or> cloud_top ind = None \<or> cloud_bottom ind = None \<or>
    prev_tenkan ind = None \<or> prev_kijun ind = None \<or> prev_senkou_a ind = None \<or>
    prev_senkou_b ind = None \<or> prev_chikou ind = None \<or> prev_close ind = None \<or>
    prev_cloud_top ind = None \<or> prev_cloud_bottom ind = None"
  proof (rule skip)
    from that show "\<not> defined_snapshot ind"
      unfolding defined_snapshot_def by auto
  qed
  have b: "st \<in> signal_type ` set sigs"
    if "defined_snapshot ind" "(st, rule_fn) \<in> set rules" "st \<in> enabled self"
      "fst (rule_fn (det_cfg self) ind)" "last_signal_time self (p, tf, st) = None"
      "check self p tf ind now = Inr (sigs, self')"
  proof -
    from that(1) have n: "\<not> has_nan ind" by (simp add: has_nan_iff)
    have "rule_emits self p tf ind now (st, rule_fn)"
      using that(3,4,5) by (simp add: rule_emits_def on_cooldown_def)
    with check_emits_iff [OF n that(6,2)] show ?thesis by simp
  qed
  have c: "tenkan v = None \<and> kijun v = None \<and> senkou_a v = None \<and> senkou_b v = None \<and>
          chikou v = None \<and> close v = None \<and> cloud_top v = None \<and> cloud_bottom v = None \<and>
          prev_tenkan v = None \<and> prev_kijun v = None \<and> prev_senkou_a v = None \<and>
          prev_senkou_b v = None \<and> prev_chikou v = None \<and> prev_close v = None \<and>
          prev_cloud_top v = None \<and> prev_cloud_bottom v = None \<and>
          check self p tf v now = Inr ([], self)"
    if "length candles < 2" "latest_values indicator candles = Inr v"
  proof -
    from latest_values_short [OF that] have v: "v = nan_dict" .
    have "\<not> defined_snapshot nan_dict"
      by (simp add: defined_snapshot_def nan_dict_def)
    from skip [OF this] show ?thesis
      unfolding v by (simp add: nan_dict_def)
  qed
  from a b c show ?thesis by blast
qed

theorem skip_on_undefined_witness:
  "chikou (breakout_snapshot\<lparr>chikou := None\<rparr>) = None \<and>
   fst (kumo_breakout_up (det_cfg (SignalDetector_init None None))
          (breakout_snapshot\<lparr>chikou := None\<rparr>)) \<and>
   check (SignalDetector_init None None) ''EURUSD'' ''H1'' (breakout_snapshot\<lparr>chikou := None\<rparr>) 0
     = Inr ([], SignalDetector_init None None) \<and>
   defined_snapshot breakout_snapshot \<and>
   (''kumo_breakout_up'', kumo_breakout_up) \<in> set rules \<and>
   ''kumo_breakout_up'' \<in> enabled (SignalDetector_init None None) \<and>
   fst (kumo_breakout_up (det_cfg (SignalDetector_init None None)) breakout_snapshot) \<and>
   last_signal_time (SignalDetector_init None None) (''EURUSD'', ''H1'', ''kumo_breakout_up'')
     = None \<and>
   (\<exists>sigs self'. check (SignalDetector_init None None) ''EURUSD'' ''H1'' breakout_snapshot 0
       = Inr (sigs, self') \<and> ''kumo_breakout_up'' \<in> signal_type ` set sigs) \<and>
   length (flat_bars 1) < 2 \<and>
   latest_values \<lparr>ind_cfg = default_IchimokuConfig\<rparr> (flat_bars 1) = Inr nan_dict \<and>
   check (SignalDetector_init None None) ''EURUSD'' ''H1'' nan_dict 0
     = Inr ([], SignalDetector_init None None)"
proof -
  let ?d = "SignalDetector_init None None"
  have h1: "chikou (breakout_snapshot\<lparr>chikou := None\<rparr>) = None"
    by simp
  have h1': "fst (kumo_breakout_up (det_cfg ?d) (breakout_snapshot\<lparr>chikou := None\<rparr>))"
    by (simp add: kumo_breakout_up_def breakout_snapshot_def fle_def fgt_def flt_def)
  have h2: "length (flat_bars 1) < 2"
    by (simp add: flat_bars_def)
  have h3: "latest_values \<lparr>ind_cfg = default_IchimokuConfig\<rparr> (flat_bars 1) = Inr nan_dict"
    by code_simp
  have g1: "defined_snapshot breakout_snapshot"
    by (simp add: defined_snapshot_def breakout_snapshot_def)
  have g2: "(''kumo_breakout_up'', kumo_breakout_up) \<in> set rules"
    by (simp add: rules_def)
  have g3: "''kumo_breakout_up'' \<in> enabled ?d"
    by (simp add: SignalDetector_init_def ALL_SIGNALS_def)
  have g4: "fst (kumo_breakout_up (det_cfg ?d) breakout_snapshot)"
    by (simp add: kumo_breakout_up_def breakout_snapshot_def fle_def fgt_def flt_def)
  have g5: "last_signal_time ?d (''EURUSD'', ''H1'', ''kumo_breakout_up'') = None"
    by (simp add: SignalDetector_init_def)
  have "timedelta_minutes (cooldown_minutes (det_cfg ?d)) = Inr (30 * 60000000)"
    by (simp add: SignalDetector_init_def default_DetectorConfig_def timedelta_minutes_def)
  from check_returns [OF this, of "''EURUSD''" "''H1''" breakout_snapshot 0]
  obtain sigs self' where
    g6: "check ?d ''EURUSD'' ''H1'' breakout_snapshot 0 = Inr (sigs, self')" by auto
  note t1 = skip_on_undefined [where ind = "breakout_snapshot\<lparr>chikou := None\<rparr>" and self = ?d
      and p = "''EURUSD''" and tf = "''H1''" and now = 0, THEN conjunct1]
  note t2 = skip_on_undefined [where ind = breakout_snapshot and self = ?d
      and p = "''EURUSD''" and tf = "''H1''" and now = 0 and st = "''kumo_breakout_up''"
      and rule_fn = kumo_breakout_up and sigs = sigs and self' = self',
      THEN conjunct2, THEN conjunct1]
  note t3 = skip_on_undefined [where candles = "flat_bars 1"
      and indicator = "\<lparr>ind_cfg = default_IchimokuConfig\<rparr>" and v = nan_dict and self = ?d
      and p = "''EURUSD''" and tf = "''H1''" and now = 0, THEN conjunct2, THEN conjunct2]
  from t1 h1 have r1: "check ?d ''EURUSD'' ''H1'' (breakout_snapshot\<lparr>chikou := None\<rparr>) 0
     = Inr ([], ?d)" by blast
  from t2 g1 g2 g3 g4 g5 g6 have "''kumo_breakout_up'' \<in> signal_type ` set sigs" by blast
  with g6 have r2: "\<exists>sigs self'. check ?d ''EURUSD'' ''H1'' breakout_snapshot 0
       = Inr (sigs, self') \<and> ''kumo_breakout_up'' \<in> signal_type ` set sigs" by blast
  from t3 h2 h3 have r3: "check ?d ''EURUSD'' ''H1'' nan_dict 0 = Inr ([], ?d)" by blast
  from h1 h1' r1 g1 g2 g3 g4 g5 r2 h2 h3 r3 show ?thesis by blast
qed


lemma check_frame:
  assumes "check self p tf ind now = Inr (sigs, self')"
  shows "last_signal_time self' k
       = (if k \<in> (\<lambda>s. (p, tf, signal_type s)) ` set sigs then Some now
          else last_signal_time self k) \<and>
     det_cfg self' = det_cfg self \<and> enabled self' = enabled self \<and>
     (sigs \<noteq> [] \<longrightarrow> \<not> has_nan ind)"
proof (cases "has_nan ind")
  case True
  with assms show ?thesis by (auto simp: check_def)
next
  case False
  note c = check_char [OF False assms]
  have s: "sigs = map (signal_of self p tf ind now) (filter (rule_emits self p tf ind now) rules)"
    using c by simp
  have keys: "(\<lambda>r. (p, tf, fst r)) ` set (filter (rule_emits self p tf ind now) rules)
              = (\<lambda>s. (p, tf, signal_type s)) ` set sigs"
    unfolding s by (simp add: image_image)
  have r: "self' = self\<lparr>last_signal_time :=
             (\<lambda>k. if k \<in> (\<lambda>s. (p, tf, signal_type s)) ` set sigs
                  then Some now else last_signal_time self k)\<rparr>"
    using c unfolding keys by simp
  show ?thesis
    using False by (subst r, subst r, subst r) simp
qed

text \<open>
  When \<open>check\<close> raises (the overflow of \<open>timedelta\<close>), the detector it leaves behind
  still has every registered time it had before: a key set before the exception had no
  registered time, because with such a cooldown \<open>_on_cooldown\<close> returns only for a key
  without one.
\<close>

lemma check_loop_raise_overflow:
  "check_loop rs p tf ind now self acc = Inl (e, d) \<Longrightarrow>
   timedelta_minutes (cooldown_minutes (det_cfg self)) = Inl e"
proof (induction rs arbitrary: self acc)
  case Nil
  then show ?case by simp
next
  case (Cons r rs)
  obtain st fn where r: "r = (st, fn)" by (cases r)
  show ?case
  proof (cases "on_cooldown self p tf st now")
    case (Inl e')
    then have "timedelta_minutes (cooldown_minutes (det_cfg self)) = Inl e'"
      by (auto simp: on_cooldown_def split: option.splits sum.splits)
    with Cons Inl show ?thesis
      by (auto simp: r split: if_splits)
  next
    case (Inr x)
    have cfg: "det_cfg (record_signal self p tf st now) = det_cfg self"
      by (simp add: record_signal_def)
    show ?thesis
    proof (cases "st \<in> enabled self \<and> fst (fn (det_cfg self) ind) \<and> \<not> x")
      case True
      with Cons.prems Inr have
        "check_loop rs p tf ind now (record_signal self p tf st now)
           (acc @ [\<lparr>pair = p, timeframe = tf, signal_type = st,
                  direction = (if endswith st ''_up'' then ''BUY'' else ''SELL''),
                  timestamp = now, price = close ind,
                  details = snd (fn (det_cfg self) ind)\<rparr>]) = Inl (e, d)"
        by (simp add: r)
      from Cons.IH [OF this] cfg show ?thesis by simp
    next
      case False
      with Cons.prems Inr have "check_loop rs p tf ind now self acc = Inl (e, d)"
        by (cases x) (auto simp: r split: if_splits)
      from Cons.IH [OF this] show ?thesis .
    qed
  qed
qed

lemma check_loop_raise_frame:
  assumes "check_loop rs p tf ind now self acc = Inl (e, d)"
  shows "(last_signal_time self k = Some t \<longrightarrow> last_signal_time d k = Some t) \<and>
         det_cfg d = det_cfg self \<and> enabled d = enabled self"
  using assms
proof (induction rs arbitrary: self acc)
  case Nil
  then show ?case by simp
next
  case (Cons r rs)
  obtain st fn where r: "r = (st, fn)" by (cases r)
  note ov = check_loop_raise_overflow [OF Cons.prems]
  show ?case
  proof (cases "on_cooldown self p tf st now")
    case (Inl e')
    with Cons show ?thesis
      by (auto simp: r split: if_splits)
  next
    case (Inr x)
    show ?thesis
    proof (cases x)
      case True
      with Cons Inr show ?thesis
        by (auto simp: r split: if_splits)
    next
      case False
      with Inr ov have none: "last_signal_time self (p, tf, st) = None"
        by (auto simp: on_cooldown_def split: option.splits sum.splits)
      have rec: "last_signal_time self k = Some t \<longrightarrow>
            last_signal_time (record_signal self p tf st now) k = Some t"
        using none by (auto simp: record_signal_def)
      have cfg: "det_cfg (record_signal self p tf st now) = det_cfg self"
        "enabled (record_signal self p tf st now) = enabled self"
        by (simp_all add: record_signal_def)
      show ?thesis
      proof (cases "st \<in> enabled self \<and> fst (fn (det_cfg self) ind)")
        case True
        with Cons.prems Inr False have
          "check_loop rs p tf ind now (record_signal self p tf st now)
             (acc @ [\<lparr>pair = p, timeframe = tf, signal_type = st,
                    direction = (if endswith st ''_up'' then ''BUY'' else ''SELL''),
                    timestamp = now, price = close ind,
                    details = snd (fn (det_cfg self) ind)\<rparr>]) = Inl (e, d)"
          by (simp add: r)
        from Cons.IH [OF this] rec cfg show ?thesis by simp
      next
        case False
        with Cons.prems have "check_loop rs p tf ind now self acc = Inl (e, d)"
          by (auto simp: r split: if_splits)
        from Cons.IH [OF this] show ?thesis .
      qed
    qed
  qed
qed

lemma check_raise_keeps_registered:
  assumes "check self p tf ind now = Inl (e, self')"
  shows "e = OverflowError ''days must have magnitude <= 999999999'' \<and>
         (last_signal_time self k = Some t \<longrightarrow> last_signal_time self' k = Some t) \<and>
         det_cfg self' = det_cfg self \<and> enabled self' = enabled self"
proof -
  from assms have l: "check_loop rules p tf ind now self [] = Inl (e, self')"
    by (auto simp: check_def split: if_splits)
  from check_loop_raise_overflow [OF l] have "e = OverflowError ''days must have magnitude <= 999999999''"
    by (auto simp: timedelta_minutes_def split: if_splits)
  with check_loop_raise_frame [OF l, of k t] show ?thesis by simp
qed

lemma fresh_detector_cooldown:
  "timedelta_minutes (cooldown_minutes (det_cfg (SignalDetector_init None None)))
     = Inr 1800000000"
  by (simp add: SignalDetector_init_def default_DetectorConfig_def timedelta_minutes_def)



text \<open>
  C10. After \<open>check\<close>, the registry holds \<open>now\<close> at exactly the keys of the signals that
  were emitted and is unchanged at every other key. In particular a kind whose key is on
  cooldown emits nothing and keeps its registered time, so the next firing is measured from
  the last emitted signal. Configuration and enabled kinds are untouched.
\<close>

theorem registry_frame:
  assumes "check self p tf ind now = Inr (sigs, self')"
  shows
    "last_signal_time self' k
       = (if k \<in> (\<lambda>s. (p, tf, signal_type s)) ` set sigs then Some now
          else last_signal_time self k) \<and>
     (on_cooldown self p tf st now = Inr True \<longrightarrow>
        st \<notin> signal_type ` set sigs \<and>
        last_signal_time self' (p, tf, st) = last_signal_time self (p, tf, st)) \<and>
     det_cfg self' = det_cfg self \<and> enabled self' = enabled self"
proof -
  note f = check_frame [OF assms]
  have quiet: "st \<notin> signal_type ` set sigs" if oc: "on_cooldown self p tf st now = Inr True"
  proof (cases "has_nan ind")
    case True
    with assms show ?thesis by (auto simp: check_def)
  next
    case False
    from check_char [OF False assms, THEN conjunct1] oc show ?thesis
      by (auto simp: rule_emits_def)
  qed
  have quiet_key: "(p, tf, st) \<notin> (\<lambda>s. (p, tf, signal_type s)) ` set sigs"
    if "on_cooldown self p tf st now = Inr True"
    using quiet [OF that] by auto
  have keep: "last_signal_time self' (p, tf, st) = last_signal_time self (p, tf, st)"
    if "on_cooldown self p tf st now = Inr True"
    using f [of "(p, tf, st)"] quiet_key [OF that] by simp
  from f [of k] quiet keep show ?thesis by blast
qed


theorem registry_frame_witness:
  "on_cooldown fired_detector ''EURUSD'' ''H1'' ''kumo_breakout_up'' 900000000 = Inr True \<and>
   (\<exists>sigs self'.
      check fired_detector ''EURUSD'' ''H1'' breakout_snapshot 900000000 = Inr (sigs, self') \<and>
      ''kumo_breakout_up'' \<notin> signal_type ` set sigs \<and>
      last_signal_time self' (''EURUSD'', ''H1'', ''kumo_breakout_up'') = Some 0)"
proof -
  have td: "timedelta_minutes (cooldown_minutes (det_cfg fired_detector)) = Inr 1800000000"
    by (simp add: fired_detector_def record_signal_def SignalDetector_init_def
        default_DetectorConfig_def timedelta_minutes_def)
  have h5: "last_signal_time fired_detector (''EURUSD'', ''H1'', ''kumo_breakout_up'') = Some 0"
    by (simp add: fired_detector_def record_signal_def)
  have h: "on_cooldown fired_detector ''EURUSD'' ''H1'' ''kumo_breakout_up'' 900000000 = Inr True"
    by (simp add: on_cooldown_def h5 td)
  from check_returns [OF td, of "''EURUSD''" "''H1''" breakout_snapshot 900000000]
  obtain sigs self' where
    c: "check fired_detector ''EURUSD'' ''H1'' breakout_snapshot 900000000 = Inr (sigs, self')"
    by auto
  note rf = registry_frame [OF c, of "(''EURUSD'', ''H1'', ''kumo_breakout_up'')"
      "''kumo_breakout_up''"]
  from rf [THEN conjunct2, THEN conjunct1, THEN mp, OF h] h5
  have "''kumo_breakout_up'' \<notin> signal_type ` set sigs \<and>
      last_signal_time self' (''EURUSD'', ''H1'', ''kumo_breakout_up'') = Some 0" by simp
  with h c show ?thesis by blast
qed


section \<open>The replay driver\<close>

lemma append_seeded:
  "data b = Some d \<Longrightarrow> \<exists>b' d'. CandleBuffer_append b df = Inr b' \<and> data b' = Some d' \<and>
      max_size b' = max_size b \<and> min_candles b' = min_candles b"
  by (simp add: CandleBuffer_append_def Let_def)

lemma check_loop_error:
  "check_loop rs p tf ind now self acc = Inl (e, d) \<Longrightarrow>
   e = OverflowError ''days must have magnitude <= 999999999''"
proof (induction rs arbitrary: self acc)
  case Nil
  then show ?case by simp
next
  case (Cons r rs)
  obtain st fn where r: "r = (st, fn)" by (cases r)
  show ?case
  proof (cases "on_cooldown self p tf st now")
    case (Inl e')
    then have "e' = OverflowError ''days must have magnitude <= 999999999''"
      by (auto simp: on_cooldown_def timedelta_minutes_def split: option.splits if_splits)
    with Cons Inl show ?thesis
      by (auto simp: r split: if_splits)
  next
    case (Inr x)
    with Cons show ?thesis
      by (cases x) (auto simp: r split: if_splits)
  qed
qed

lemma check_error:
  "check self p tf ind now = Inl (e, d) \<Longrightarrow>
   e = OverflowError ''days must have magnitude <= 999999999''"
  using check_loop_error [of rules p tf ind now self "[]" e d]
  by (auto simp: check_def split: if_splits)

text \<open>
  One turn of the replay loop either ends the run with the overflow of \<open>timedelta\<close> or
  goes on with the appended buffer and a detector of the same configuration.
\<close>

lemma replay_step_cases:
  assumes "CandleBuffer_append b [row] = Inr b'" and "data b' = Some d'"
  shows "replay_step symbol tf indicator (b, det, sigs) row
           = Inl (OverflowError ''days must have magnitude <= 999999999'') \<or>
         (\<exists>det' sigs'. replay_step symbol tf indicator (b, det, sigs) row = Inr (b', det', sigs') \<and>
            det_cfg det' = det_cfg det \<and> enabled det' = enabled det)"
proof (cases "is_ready b'")
  case False
  then show ?thesis by (simp add: replay_step_def assms)
next
  case True
  show ?thesis
  proof (cases "latest_values indicator d'")
    case (Inl e)
    then show ?thesis
      by (simp add: replay_step_def assms CandleBuffer_data_def)
  next
    case v: (Inr v)
    show ?thesis
    proof (cases "check det symbol tf v (bar_time row)")
      case (Inl ed)
      obtain e d where ed: "ed = (e, d)" by (cases ed)
      from check_error [of det symbol tf v "bar_time row" e d] Inl ed v True show ?thesis
        by (simp add: replay_step_def assms CandleBuffer_data_def)
    next
      case (Inr res)
      obtain s2 det2 where res: "res = (s2, det2)" by (cases res)
      from check_frame [of det symbol tf v "bar_time row" s2 det2] Inr res v True show ?thesis
        by (simp add: replay_step_def assms CandleBuffer_data_def)
    qed
  qed
qed

lemma replay_step_returns:
  assumes "CandleBuffer_append b [row] = Inr b'" and "data b' = Some d'"
    and "timedelta_minutes (cooldown_minutes (det_cfg det)) = Inr td"
  shows "\<exists>det' sigs'. replay_step symbol tf indicator (b, det, sigs) row = Inr (b', det', sigs') \<and>
            det_cfg det' = det_cfg det"
proof (cases "is_ready b'")
  case False
  then show ?thesis by (simp add: replay_step_def assms)
next
  case True
  show ?thesis
  proof (cases "latest_values indicator d'")
    case (Inl e)
    then show ?thesis
      by (simp add: replay_step_def assms CandleBuffer_data_def)
  next
    case v: (Inr v)
    from check_returns [OF assms(3), of symbol tf v "bar_time row"] obtain s2 det2 where
      c: "check det symbol tf v (bar_time row) = Inr (s2, det2)" by auto
    from check_frame [OF c] c v True show ?thesis
      by (simp add: replay_step_def assms CandleBuffer_data_def)
  qed
qed

lemma replay_step_Inr:
  assumes "data b = Some d"
    and "replay_step symbol tf indicator (b, det, sigs) row = Inr (b', det', sigs')"
  shows "CandleBuffer_append b [row] = Inr b' \<and> (\<exists>d'. data b' = Some d') \<and>
         det_cfg det' = det_cfg det \<and> enabled det' = enabled det"
proof -
  from append_seeded [OF assms(1), of "[row]"] obtain b1 d1 where
    a: "CandleBuffer_append b [row] = Inr b1" and d1: "data b1 = Some d1" by blast
  from replay_step_cases [OF a d1, of symbol tf indicator det sigs] assms(2) a d1
  show ?thesis by auto
qed


lemma replay_loop_returns:
  assumes "data (fst st) \<noteq> None"
    and "timedelta_minutes (cooldown_minutes (det_cfg (fst (snd st)))) = Inr td"
  shows "\<exists>st'. replay_loop symbol tf indicator st rows = Inr st'"
  using assms
proof (induction rows arbitrary: st)
  case Nil
  show ?case by (cases st) simp
next
  case (Cons row rows)
  obtain b det sigs where st: "st = (b, det, sigs)" by (cases st) auto
  from Cons.prems obtain d where "data b = Some d" by (auto simp: st)
  from append_seeded [OF this, of "[row]"] obtain b1 d1 where
    a: "CandleBuffer_append b [row] = Inr b1" and d1: "data b1 = Some d1" by blast
  from Cons.prems(2) have td: "timedelta_minutes (cooldown_minutes (det_cfg det)) = Inr td"
    by (simp add: st)
  from replay_step_returns [OF a d1 td, of symbol tf indicator sigs]
  obtain det' sigs' where
    s: "replay_step symbol tf indicator (b, det, sigs) row = Inr (b1, det', sigs')"
    and c: "det_cfg det' = det_cfg det" by blast
  from Cons.IH [of "(b1, det', sigs')"] d1 td c show ?case
    by (simp add: st s)
qed

lemma replay_step_signals:
  assumes "data b = Some d"
    and "replay_step symbol tf indicator (b, det, sigs) row = Inr (b', det', sigs')"
  shows "(det' = det \<and> sigs' = sigs) \<or>
         (\<exists>v s2. check det symbol tf v (bar_time row) = Inr (s2, det') \<and> sigs' = sigs @ s2)"
proof -
  from append_seeded [OF assms(1), of "[row]"] obtain b1 d1 where
    a: "CandleBuffer_append b [row] = Inr b1" and d1: "data b1 = Some d1" by blast
  show ?thesis
  proof (cases "is_ready b1")
    case False
    with assms(2) show ?thesis by (simp add: replay_step_def a)
  next
    case True
    show ?thesis
    proof (cases "latest_values indicator d1")
      case (Inl e)
      with assms(2) True show ?thesis
        by (simp add: replay_step_def a d1 CandleBuffer_data_def)
    next
      case (Inr v)
      with assms(2) True show ?thesis
        by (auto simp: replay_step_def a d1 CandleBuffer_data_def split: sum.splits prod.splits)
    qed
  qed
qed

lemma replay_step_registered:
  assumes "data b = Some d"
    and "replay_step symbol tf indicator (b, det, sigs) row = Inr (b', det', sigs')"
    and "\<forall>x\<in>set sigs. last_signal_time det (symbol, tf, signal_type x) \<noteq> None"
  shows "\<forall>x\<in>set sigs'. last_signal_time det' (symbol, tf, signal_type x) \<noteq> None"
  using replay_step_signals [OF assms(1,2)]
proof
  assume "det' = det \<and> sigs' = sigs"
  with assms(3) show ?thesis by simp
next
  assume "\<exists>v s2. check det symbol tf v (bar_time row) = Inr (s2, det') \<and> sigs' = sigs @ s2"
  then obtain v s2 where c: "check det symbol tf v (bar_time row) = Inr (s2, det')"
    and s: "sigs' = sigs @ s2" by blast
  note f = check_frame [OF c, THEN conjunct1]
  show ?thesis
  proof
    fix x assume "x \<in> set sigs'"
    with s assms(3) f [of "(symbol, tf, signal_type x)"]
    show "last_signal_time det' (symbol, tf, signal_type x) \<noteq> None"
      by (auto split: if_splits)
  qed
qed

lemma replay_loop_registered:
  assumes "data b = Some d"
    and "replay_loop symbol tf indicator (b, det, sigs) rows = Inr (b', det', sigs')"
    and "\<forall>x\<in>set sigs. last_signal_time det (symbol, tf, signal_type x) \<noteq> None"
  shows "\<forall>x\<in>set sigs'. last_signal_time det' (symbol, tf, signal_type x) \<noteq> None"
  using assms
proof (induction rows arbitrary: b d det sigs)
  case Nil
  then show ?case by simp
next
  case (Cons row rows)
  from Cons.prems(2) obtain b1 det1 sigs1 where
    st: "replay_step symbol tf indicator (b, det, sigs) row = Inr (b1, det1, sigs1)"
    and l: "replay_loop symbol tf indicator (b1, det1, sigs1) rows = Inr (b', det', sigs')"
    by (auto split: sum.splits)
  from replay_step_Inr [OF Cons.prems(1) st] obtain d1 where d1: "data b1 = Some d1" by blast
  from Cons.IH [OF d1 l replay_step_registered [OF Cons.prems(1) st Cons.prems(3)]]
  show ?case .
qed




text \<open>
  C8. A detector as \<open>run\<close> constructs it has an empty cooldown registry. Past its two
  checks, \<open>run\<close> returns the signals of the replay loop started from the buffer seeded
  with the warm-up slice, the indicator of the configuration and that freshly constructed
  detector, so its result is determined by configuration and input alone. The detector
  that a replay leaves behind is not fresh (it has a registered time for every signal
  the replay emitted), but it is discarded: \<open>run\<close> leaves the engine object as it was,
  and a second run of the same engine over the same input returns the same result as the
  first, which is the result of \<open>run\<close> on the engine's configuration.
\<close>

theorem replay_determinism:
  "last_signal_time (SignalDetector_init config en) = Map.empty \<and>
   (warmup_candles c < int (length candles) \<and> DEFAULT_MIN \<le> buffer_size c \<longrightarrow>
      run c symbol tf candles en
        = (case replay_loop symbol tf \<lparr>ind_cfg = ichimoku c\<rparr>
                  (CandleBuffer_seed
                     \<lparr>max_size = buffer_size c, min_candles = DEFAULT_MIN, data = None\<rparr>
                     (iloc_to (warmup_candles c) candles),
                   SignalDetector_init (Some (detector c)) en, [])
                  (iloc_from (warmup_candles c) candles) of
             Inl e \<Rightarrow> Inl e
           | Inr st \<Rightarrow> Inr (snd (snd st)))) \<and>
   (replay_loop symbol tf indicator
        (CandleBuffer_seed buffer df, SignalDetector_init config en, []) rows
      = Inr (buffer', det', sigs) \<longrightarrow>
      (\<forall>x\<in>set sigs. last_signal_time det' (symbol, tf, signal_type x) \<noteq> None)) \<and>
   (BacktestEngine_run self symbol tf candles en = (result, self') \<and>
    BacktestEngine_run self' symbol tf candles en = (result', self'') \<longrightarrow>
      result' = result \<and> self'' = self \<and> result = run (cfg self) symbol tf candles en)"
proof -
  have fresh: "last_signal_time (SignalDetector_init config en) = Map.empty"
    by (simp add: SignalDetector_init_def)
  have pinned: "run c symbol tf candles en
        = (case replay_loop symbol tf \<lparr>ind_cfg = ichimoku c\<rparr>
                  (CandleBuffer_seed
                     \<lparr>max_size = buffer_size c, min_candles = DEFAULT_MIN, data = None\<rparr>
                     (iloc_to (warmup_candles c) candles),
                   SignalDetector_init (Some (detector c)) en, [])
                  (iloc_from (warmup_candles c) candles) of
             Inl e \<Rightarrow> Inl e
           | Inr st \<Rightarrow> Inr (snd (snd st)))"
    if "warmup_candles c < int (length candles)" and "DEFAULT_MIN \<le> buffer_size c"
    using that
    by (simp add: run_def CandleBuffer_init_def IchimokuIndicator_init_def
        split: sum.splits prod.splits)
  have dirty: "\<forall>x\<in>set sigs. last_signal_time det' (symbol, tf, signal_type x) \<noteq> None"
    if l: "replay_loop symbol tf indicator
        (CandleBuffer_seed buffer df, SignalDetector_init config en, []) rows
      = Inr (buffer', det', sigs)"
  proof -
    have d: "data (CandleBuffer_seed buffer df) = Some (tail_df (max_size buffer) (prepare df))"
      by (simp add: CandleBuffer_seed_def)
    from replay_loop_registered [OF d l] show ?thesis by simp
  qed
  have twice: "result' = result \<and> self'' = self \<and> result = run (cfg self) symbol tf candles en"
    if "BacktestEngine_run self symbol tf candles en = (result, self')"
      and "BacktestEngine_run self' symbol tf candles en = (result', self'')"
    using that by (auto simp: BacktestEngine_run_def)
  from fresh pinned dirty twice show ?thesis by blast
qed

theorem replay_determinism_witness:
  "warmup_candles demo_config < int (length demo_candles) \<and>
   DEFAULT_MIN \<le> buffer_size demo_config \<and>
   run demo_config ''EURUSD'' ''H1'' demo_candles None = Inr demo_signals \<and>
   (\<exists>buffer' det'.
      replay_loop ''EURUSD'' ''H1'' \<lparr>ind_cfg = ichimoku demo_config\<rparr>
        (CandleBuffer_seed
           \<lparr>max_size = buffer_size demo_config, min_candles = DEFAULT_MIN, data = None\<rparr>
           (iloc_to (warmup_candles demo_config) demo_candles),
         SignalDetector_init (Some (detector demo_config)) None, [])
        (iloc_from (warmup_candles demo_config) demo_candles)
        = Inr (buffer', det', demo_signals) \<and>
      last_signal_time det' (''EURUSD'', ''H1'', ''kumo_breakout_up'') \<noteq> None \<and>
      last_signal_time det' (''EURUSD'', ''H1'', ''chikou_cross_up'') \<noteq> None) \<and>
   BacktestEngine_run (BacktestEngine_init (Some demo_config)) ''EURUSD'' ''H1'' demo_candles None
     = (Inr demo_signals, BacktestEngine_init (Some demo_config)) \<and>
   fst (BacktestEngine_run
          (snd (BacktestEngine_run (BacktestEngine_init (Some demo_config)) ''EURUSD'' ''H1''
                  demo_candles None))
          ''EURUSD'' ''H1'' demo_candles None)
     = Inr demo_signals"
proof -
  let ?e = "BacktestEngine_init (Some demo_config)"
  let ?loop = "replay_loop ''EURUSD'' ''H1'' \<lparr>ind_cfg = ichimoku demo_config\<rparr>
        (CandleBuffer_seed
           \<lparr>max_size = buffer_size demo_config, min_candles = DEFAULT_MIN, data = None\<rparr>
           (iloc_to (warmup_candles demo_config) demo_candles),
         SignalDetector_init (Some (detector demo_config)) None, [])
        (iloc_from (warmup_candles demo_config) demo_candles)"
  have h1: "warmup_candles demo_config < int (length demo_candles)"
    and h2: "DEFAULT_MIN \<le> buffer_size demo_config"
    by (simp_all add: demo_config_def demo_candles_def flat_bars_def DEFAULT_MIN_def)
  have r: "run demo_config ''EURUSD'' ''H1'' demo_candles None = Inr demo_signals"
    by code_simp
  have cfg: "cfg ?e = demo_config"
    by (simp add: BacktestEngine_init_def)
  have run1: "BacktestEngine_run ?e ''EURUSD'' ''H1'' demo_candles None = (Inr demo_signals, ?e)"
    by (simp add: BacktestEngine_run_def cfg r)
  note t = replay_determinism [where c = demo_config and symbol = "''EURUSD''" and tf = "''H1''"
      and candles = demo_candles and en = None and self = ?e and result = "Inr demo_signals"
      and self' = ?e
      and result' = "fst (BacktestEngine_run ?e ''EURUSD'' ''H1'' demo_candles None)"
      and self'' = "snd (BacktestEngine_run ?e ''EURUSD'' ''H1'' demo_candles None)"
      and indicator = "\<lparr>ind_cfg = ichimoku demo_config\<rparr>"
      and buffer = "\<lparr>max_size = buffer_size demo_config, min_candles = DEFAULT_MIN, data = None\<rparr>"
      and df = "iloc_to (warmup_candles demo_config) demo_candles"
      and config = "Some (detector demo_config)"
      and rows = "iloc_from (warmup_candles demo_config) demo_candles"]
  from t [THEN conjunct2, THEN conjunct1] h1 h2 r
  have "(case ?loop of Inl e \<Rightarrow> Inl e | Inr st \<Rightarrow> Inr (snd (snd st))) = Inr demo_signals"
    by simp
  then obtain b1 d1 where l: "?loop = Inr (b1, d1, demo_signals)"
    by (auto split: sum.splits)
  from t [where buffer' = b1 and det' = d1 and sigs = demo_signals,
      THEN conjunct2, THEN conjunct2, THEN conjunct1] l
  have "\<forall>x\<in>set demo_signals. last_signal_time d1 (''EURUSD'', ''H1'', signal_type x) \<noteq> None"
    by blast
  then have reg: "last_signal_time d1 (''EURUSD'', ''H1'', ''kumo_breakout_up'') \<noteq> None"
    "last_signal_time d1 (''EURUSD'', ''H1'', ''chikou_cross_up'') \<noteq> None"
    by (simp_all add: demo_signals_def)
  from t [THEN conjunct2, THEN conjunct2, THEN conjunct2] run1
  have again: "fst (BacktestEngine_run
          (snd (BacktestEngine_run ?e ''EURUSD'' ''H1'' demo_candles None))
          ''EURUSD'' ''H1'' demo_candles None) = Inr demo_signals"
    by simp
  from l reg have ex: "\<exists>buffer' det'. ?loop = Inr (buffer', det', demo_signals) \<and>
      last_signal_time det' (''EURUSD'', ''H1'', ''kumo_breakout_up'') \<noteq> None \<and>
      last_signal_time det' (''EURUSD'', ''H1'', ''chikou_cross_up'') \<noteq> None"
    by blast
  from h1 h2 r ex run1 again show ?thesis by blast
qed

text \<open>
  Freshness matters: the same replay started from a detector that has registered the two
  signals of the first run returns no signal.
\<close>

lemma reused_detector_differs:
  "map_sum id (snd \<circ> snd)
     (replay_loop ''EURUSD'' ''H1'' \<lparr>ind_cfg = ichimoku demo_config\<rparr>
        (CandleBuffer_seed
           \<lparr>max_size = buffer_size demo_config, min_candles = DEFAULT_MIN, data = None\<rparr>
           (iloc_to (warmup_candles demo_config) demo_candles),
         used_detector, [])
        (iloc_from (warmup_candles demo_config) demo_candles))
   = Inr []"
  by code_simp



section \<open>The rolling window\<close>


lemma tail_df_sorted: "sorted_wrt R (map f xs) \<Longrightarrow> sorted_wrt R (map f (tail_df n xs))"
  by (simp add: tail_df_def drop_map [symmetric] del: drop_map)

lemma tail_df_subset: "set (tail_df n xs) \<subseteq> set xs"
  by (auto simp: tail_df_def dest: in_set_dropD)

lemma tail_df_all: "int (length xs) \<le> n \<Longrightarrow> tail_df n xs = xs"
  by (auto simp: tail_df_def)

lemma prepare_sorted: "sorted (map bar_time (prepare df))"
  by (simp add: prepare_def sort_index_def)

lemma prepare_set: "set (prepare df) = set (dropna df)"
  by (simp add: prepare_def sort_index_def)

lemma prepare_distinct:
  "distinct (map bar_time (dropna df)) \<Longrightarrow> distinct (map bar_time (prepare df))"
  by (simp add: prepare_def sort_index_def distinct_map)

lemma seed_strictly_sorted:
  assumes "distinct (map bar_time (dropna df))"
  shows "sorted_wrt (<) (map bar_time (tail_df n (prepare df)))"
  using prepare_sorted [of df] prepare_distinct [OF assms]
  by (intro tail_df_sorted) (simp add: strict_sorted_iff)


















lemma append_noop:
  assumes "data b = Some d" and "bar_time ` set (prepare df) \<subseteq> bar_time ` set d"
  shows "CandleBuffer_append b df = Inr b"
proof -
  have "filter (\<lambda>r. bar_time r \<notin> set (map bar_time d)) (prepare df) = []"
    using assms(2) by (auto simp: filter_empty_conv)
  with assms(1) show ?thesis by (simp add: CandleBuffer_append_def)
qed

lemma append_twice_noop:
  assumes "CandleBuffer_append b df = Inr b'" and "data b' = Some d'"
    and "bar_time ` set (prepare df) \<subseteq> bar_time ` set d'"
  shows "appends b [df, df] = appends b [df]"
  using append_noop [OF assms(2,3)] assms(1) by simp

lemma append_room:
  assumes "data b = Some d"
    and "int (length d)
           + int (length (filter (\<lambda>r. bar_time r \<notin> set (map bar_time d)) (prepare df)))
         \<le> max_size b"
  shows "\<exists>b'. CandleBuffer_append b df = Inr b' \<and>
           data b' = Some (d @ filter (\<lambda>r. bar_time r \<notin> set (map bar_time d)) (prepare df))"
proof -
  let ?new = "filter (\<lambda>r. bar_time r \<notin> set (map bar_time d)) (prepare df)"
  have "tail_df (max_size b) (d @ ?new) = d @ ?new"
    using assms(2) by (intro tail_df_all) simp
  with assms(1) show ?thesis
    by (cases "?new = []") (simp_all add: CandleBuffer_append_def Let_def)
qed

text \<open>
  C3, as the code has it. Appending a batch a second time changes nothing when, after the
  first append, the window holds the timestamp of every candle of the batch (the first
  append trimmed none of them away). That is so whenever the window has room for the new
  candles of the batch. In particular a candle without NaN and with a new timestamp,
  appended twice to a window of 100 candles with capacity at least 101, leaves 101 candles.
\<close>

theorem append_idempotent:
  "(CandleBuffer_append b df = Inr b' \<and> data b' = Some d' \<and>
    bar_time ` set (prepare df) \<subseteq> bar_time ` set d'
      \<longrightarrow> appends b [df, df] = appends b [df]) \<and>
   (data b = Some d \<and>
    int (length d)
      + int (length (filter (\<lambda>r. bar_time r \<notin> set (map bar_time d)) (prepare df)))
    \<le> max_size b
      \<longrightarrow> appends b [df, df] = appends b [df]) \<and>
   (data b = Some d \<and> length d = 100 \<and> 101 \<le> max_size b \<and> \<not> has_na r \<and>
    bar_time r \<notin> bar_time ` set d
      \<longrightarrow> (\<exists>b2 d2. appends b [[r], [r]] = Inr b2 \<and> data b2 = Some d2 \<and> length d2 = 101))"
proof -
  have room: "appends b [df, df] = appends b [df]"
    if d: "data b = Some d"
      and l: "int (length d)
           + int (length (filter (\<lambda>r. bar_time r \<notin> set (map bar_time d)) (prepare df)))
         \<le> max_size b" for df
  proof -
    from append_room [OF d l] obtain b1 where
      a: "CandleBuffer_append b df = Inr b1"
      and d1: "data b1 = Some (d @ filter (\<lambda>r. bar_time r \<notin> set (map bar_time d)) (prepare df))"
      by blast
    have "bar_time ` set (prepare df)
          \<subseteq> bar_time ` set (d @ filter (\<lambda>r. bar_time r \<notin> set (map bar_time d)) (prepare df))"
      by auto
    from append_twice_noop [OF a d1 this] show ?thesis .
  qed
  have single: "\<exists>b2 d2. appends b [[r], [r]] = Inr b2 \<and> data b2 = Some d2 \<and> length d2 = 101"
    if d: "data b = Some d" and "length d = 100" and "101 \<le> max_size b" and "\<not> has_na r"
      and "bar_time r \<notin> bar_time ` set d"
  proof -
    have new: "filter (\<lambda>r. bar_time r \<notin> set (map bar_time d)) (prepare [r]) = [r]"
      using that by (simp add: prepare_def dropna_def sort_index_def)
    have l: "int (length d)
           + int (length (filter (\<lambda>r. bar_time r \<notin> set (map bar_time d)) (prepare [r])))
         \<le> max_size b"
      unfolding new using that by simp
    from append_room [OF d l] obtain b1 where
      a: "CandleBuffer_append b [r] = Inr b1" and d1: "data b1 = Some (d @ [r])"
      unfolding new by blast
    have "appends b [[r], [r]] = appends b [[r]]" by (rule room [OF d l])
    with a d1 that(2) show ?thesis by simp
  qed
  from append_twice_noop [of b df b' d'] room [of df] single show ?thesis by blast
qed

theorem append_idempotent_witness:
  "CandleBuffer_append (CandleBuffer_seed small_buffer (flat_bars 2)) [flat_bar 1 1, flat_bar 2 1]
     = Inr (small_buffer\<lparr>data := Some [flat_bar 1 1, flat_bar 2 1]\<rparr>) \<and>
   bar_time ` set (prepare [flat_bar 1 1, flat_bar 2 1])
     \<subseteq> bar_time ` set [flat_bar 1 1, flat_bar 2 1] \<and>
   appends (CandleBuffer_seed small_buffer (flat_bars 2))
       [[flat_bar 1 1, flat_bar 2 1], [flat_bar 1 1, flat_bar 2 1]]
     = appends (CandleBuffer_seed small_buffer (flat_bars 2)) [[flat_bar 1 1, flat_bar 2 1]] \<and>
   data (CandleBuffer_seed default_buffer (flat_bars 100)) = Some (flat_bars 100) \<and>
   length (flat_bars 100) = 100 \<and> 101 \<le> max_size (CandleBuffer_seed default_buffer (flat_bars 100)) \<and>
   \<not> has_na (flat_bar 100 1) \<and> bar_time (flat_bar 100 1) \<notin> bar_time ` set (flat_bars 100) \<and>
   (\<exists>b2 d2. appends (CandleBuffer_seed default_buffer (flat_bars 100))
               [[flat_bar 100 1], [flat_bar 100 1]] = Inr b2 \<and>
            data b2 = Some d2 \<and> length d2 = 101)"
proof -
  have h1: "CandleBuffer_append (CandleBuffer_seed small_buffer (flat_bars 2))
      [flat_bar 1 1, flat_bar 2 1] = Inr (small_buffer\<lparr>data := Some [flat_bar 1 1, flat_bar 2 1]\<rparr>)"
    by code_simp
  have h2: "data (small_buffer\<lparr>data := Some [flat_bar 1 1, flat_bar 2 1]\<rparr>)
      = Some [flat_bar 1 1, flat_bar 2 1]"
    by simp
  have h3: "bar_time ` set (prepare [flat_bar 1 1, flat_bar 2 1])
     \<subseteq> bar_time ` set [flat_bar 1 1, flat_bar 2 1]"
    by (simp add: prepare_set dropna_def)
  have g1: "data (CandleBuffer_seed default_buffer (flat_bars 100)) = Some (flat_bars 100)"
    by code_simp
  have g2: "length (flat_bars 100) = 100"
    by (simp add: flat_bars_def)
  have g3: "101 \<le> max_size (CandleBuffer_seed default_buffer (flat_bars 100))"
    by (simp add: CandleBuffer_seed_def default_buffer_def)
  have g4: "\<not> has_na (flat_bar 100 1)"
    by (simp add: has_na_def flat_bar_def)
  have g5: "bar_time (flat_bar 100 1) \<notin> bar_time ` set (flat_bars 100)"
    by (auto simp: flat_bars_def flat_bar_def)
  note t1 = append_idempotent [where b = "CandleBuffer_seed small_buffer (flat_bars 2)"
      and df = "[flat_bar 1 1, flat_bar 2 1]"
      and b' = "small_buffer\<lparr>data := Some [flat_bar 1 1, flat_bar 2 1]\<rparr>"
      and d' = "[flat_bar 1 1, flat_bar 2 1]", THEN conjunct1]
  note t2 = append_idempotent [where b = "CandleBuffer_seed default_buffer (flat_bars 100)"
      and d = "flat_bars 100" and r = "flat_bar 100 1", THEN conjunct2, THEN conjunct2]
  from t1 h1 h2 h3 have r1: "appends (CandleBuffer_seed small_buffer (flat_bars 2))
       [[flat_bar 1 1, flat_bar 2 1], [flat_bar 1 1, flat_bar 2 1]]
     = appends (CandleBuffer_seed small_buffer (flat_bars 2)) [[flat_bar 1 1, flat_bar 2 1]]"
    by blast
  from t2 g1 g2 g3 g4 g5 have r2: "\<exists>b2 d2. appends (CandleBuffer_seed default_buffer (flat_bars 100))
               [[flat_bar 100 1], [flat_bar 100 1]] = Inr b2 \<and>
            data b2 = Some d2 \<and> length d2 = 101"
    by blast
  from h1 h3 r1 g1 g2 g3 g4 g5 r2 show ?thesis by blast
qed

text \<open>
  C3 as stated fails when the first append trims a candle of the batch away. With capacity
  2 and the window 1, 2: the batch 3, 4, 5 gives 4, 5 once and 5, 3 twice; the batch 1, 3
  gives 2, 3 once and 3, 1 twice.
\<close>

theorem second_append_differs:
  "CandleBuffer_init 2 2 = Inr small_buffer \<and>
   map_sum id (\<lambda>b. map_option (map bar_time) (data b))
     (appends (CandleBuffer_seed small_buffer [flat_bar 1 1, flat_bar 2 1])
        [[flat_bar 3 1, flat_bar 4 1, flat_bar 5 1]])
     = Inr (Some [4, 5]) \<and>
   map_sum id (\<lambda>b. map_option (map bar_time) (data b))
     (appends (CandleBuffer_seed small_buffer [flat_bar 1 1, flat_bar 2 1])
        [[flat_bar 3 1, flat_bar 4 1, flat_bar 5 1], [flat_bar 3 1, flat_bar 4 1, flat_bar 5 1]])
     = Inr (Some [5, 3]) \<and>
   map_sum id (\<lambda>b. map_option (map bar_time) (data b))
     (appends (CandleBuffer_seed small_buffer [flat_bar 1 1, flat_bar 2 1])
        [[flat_bar 1 1, flat_bar 3 1]])
     = Inr (Some [2, 3]) \<and>
   map_sum id (\<lambda>b. map_option (map bar_time) (data b))
     (appends (CandleBuffer_seed small_buffer [flat_bar 1 1, flat_bar 2 1])
        [[flat_bar 1 1, flat_bar 3 1], [flat_bar 1 1, flat_bar 3 1]])
     = Inr (Some [3, 1])"
proof -
  have a: "CandleBuffer_init 2 2 = Inr small_buffer"
    by (simp add: CandleBuffer_init_def small_buffer_def)
  have b: "map_sum id (\<lambda>b. map_option (map bar_time) (data b))
     (appends (CandleBuffer_seed small_buffer [flat_bar 1 1, flat_bar 2 1])
        [[flat_bar 3 1, flat_bar 4 1, flat_bar 5 1]])
     = Inr (Some [4, 5])"
    by code_simp
  have c: "map_sum id (\<lambda>b. map_option (map bar_time) (data b))
     (appends (CandleBuffer_seed small_buffer [flat_bar 1 1, flat_bar 2 1])
        [[flat_bar 3 1, flat_bar 4 1, flat_bar 5 1], [flat_bar 3 1, flat_bar 4 1, flat_bar 5 1]])
     = Inr (Some [5, 3])"
    by code_simp
  have d: "map_sum id (\<lambda>b. map_option (map bar_time) (data b))
     (appends (CandleBuffer_seed small_buffer [flat_bar 1 1, flat_bar 2 1])
        [[flat_bar 1 1, flat_bar 3 1], [flat_bar 1 1, flat_bar 3 1]])
     = Inr (Some [3, 1])"
    by code_simp
  have e: "map_sum id (\<lambda>b. map_option (map bar_time) (data b))
     (appends (CandleBuffer_seed small_buffer [flat_bar 1 1, flat_bar 2 1])
        [[flat_bar 1 1, flat_bar 3 1]])
     = Inr (Some [2, 3])"
    by code_simp
  from a b c d e show ?thesis by simp
qed



section \<open>No look-ahead\<close>

lemma append_subset:
  assumes "data b = Some d" and "CandleBuffer_append b df = Inr b'"
  shows "\<exists>d'. data b' = Some d' \<and> set d' \<subseteq> set d \<union> set df"
proof -
  have "set (tail_df n (d @ filter P (prepare df))) \<subseteq> set d \<union> set df" for n P
    using tail_df_subset [of n "d @ filter P (prepare df)"]
    by (auto simp: prepare_set dropna_def)
  with assms show ?thesis
    by (auto simp: CandleBuffer_append_def Let_def split: if_splits)
qed

lemma check_timestamps:
  assumes "check det p tf ind now = Inr (sigs, det')" and "s \<in> set sigs"
  shows "timestamp s = now"
proof (cases "has_nan ind")
  case True
  with assms show ?thesis by (simp add: check_def)
next
  case False
  from check_char [OF False assms(1), THEN conjunct1] assms(2) show ?thesis by auto
qed

lemma replay_step_inv:
  assumes "data b = Some d"
    and "replay_step symbol tf indicator (b, det, sigs) row = Inr (b', det', sigs')"
  shows "(\<exists>d'. data b' = Some d' \<and> set d' \<subseteq> set d \<union> {row}) \<and>
         (\<forall>s\<in>set sigs'. s \<in> set sigs \<or> timestamp s = bar_time row)"
proof -
  from replay_step_Inr [OF assms] obtain d1 where
    a: "CandleBuffer_append b [row] = Inr b'" and d1: "data b' = Some d1" by blast
  from append_subset [OF assms(1) a] d1 have sub: "set d1 \<subseteq> set d \<union> {row}" by simp
  have sg: "s \<in> set sigs \<or> timestamp s = bar_time row" if "s \<in> set sigs'" for s
    using replay_step_signals [OF assms]
  proof
    assume "det' = det \<and> sigs' = sigs"
    with that show ?thesis by simp
  next
    assume "\<exists>v s2. check det symbol tf v (bar_time row) = Inr (s2, det') \<and> sigs' = sigs @ s2"
    then obtain v s2 where c: "check det symbol tf v (bar_time row) = Inr (s2, det')"
      and s: "sigs' = sigs @ s2" by blast
    from that s check_timestamps [OF c, of s] show ?thesis by auto
  qed
  from d1 sub sg show ?thesis by blast
qed

lemma replay_loop_inv:
  assumes "data b = Some d"
    and "replay_loop symbol tf indicator (b, det, sigs) rows = Inr (b', det', sigs')"
  shows "(\<exists>d'. data b' = Some d' \<and> set d' \<subseteq> set d \<union> set rows) \<and>
         (\<forall>s\<in>set sigs'. s \<in> set sigs \<or> timestamp s \<in> bar_time ` set rows)"
  using assms
proof (induction rows arbitrary: b d det sigs)
  case Nil
  then show ?case by simp
next
  case (Cons row rows)
  from Cons.prems(2) obtain b1 det1 sigs1 where
    st: "replay_step symbol tf indicator (b, det, sigs) row = Inr (b1, det1, sigs1)"
    and l: "replay_loop symbol tf indicator (b1, det1, sigs1) rows = Inr (b', det', sigs')"
    by (auto split: sum.splits)
  from replay_step_inv [OF Cons.prems(1) st] obtain d1 where
    d1: "data b1 = Some d1" and sub1: "set d1 \<subseteq> set d \<union> {row}"
    and sg1: "\<forall>s\<in>set sigs1. s \<in> set sigs \<or> timestamp s = bar_time row" by auto
  from Cons.IH [OF d1 l] obtain d' where
    d': "data b' = Some d'" and sub': "set d' \<subseteq> set d1 \<union> set rows"
    and sg': "\<forall>s\<in>set sigs'. s \<in> set sigs1 \<or> timestamp s \<in> bar_time ` set rows" by blast
  have "set d' \<subseteq> set d \<union> set (row # rows)" using sub1 sub' by auto
  moreover have "\<forall>s\<in>set sigs'. s \<in> set sigs \<or> timestamp s \<in> bar_time ` set (row # rows)"
    using sg1 sg' by auto
  ultimately show ?case using d' by blast
qed

text \<open>The loop over a prefix of the rows is the first part of the loop over all rows.\<close>

lemma replay_loop_append:
  "replay_loop symbol tf indicator st (xs @ ys) =
     (case replay_loop symbol tf indicator st xs of
        Inl e \<Rightarrow> Inl e
      | Inr st' \<Rightarrow> replay_loop symbol tf indicator st' ys)"
  by (induction xs arbitrary: st) (auto split: sum.splits)

text \<open>
  C1. For a replay over a time-ordered sequence with a warm-up count of at least 0: once
  the loop has processed the candles up to position \<open>i\<close> (the moment the rules are
  evaluated for candle \<open>i\<close>), the window holds only candles of positions \<open>0..i\<close>, none of
  a later position; and no signal that a run returns has a timestamp earlier than the
  candle at position \<open>warmup_candles\<close>.
\<close>

theorem no_look_ahead:
  assumes "sorted (map bar_time candles)" and "0 \<le> warmup_candles c"
  shows
    "(\<forall>i buffer indicator det buffer' det' sigs.
        nat (warmup_candles c) \<le> i \<and> i < length candles \<and>
        replay_loop symbol tf indicator
          (CandleBuffer_seed buffer (iloc_to (warmup_candles c) candles), det, [])
          (take (i + 1 - nat (warmup_candles c)) (iloc_from (warmup_candles c) candles))
          = Inr (buffer', det', sigs)
        \<longrightarrow> (\<exists>d. data buffer' = Some d \<and> set d \<subseteq> set (take (i + 1) candles))) \<and>
     (\<forall>sigs. run c symbol tf candles en = Inr sigs
        \<longrightarrow> (\<forall>s\<in>set sigs. bar_time (candles ! nat (warmup_candles c)) \<le> timestamp s))"
proof -
  let ?w = "nat (warmup_candles c)"
  have to_eq: "iloc_to (warmup_candles c) candles = take ?w candles"
    and from_eq: "iloc_from (warmup_candles c) candles = drop ?w candles"
    using assms(2) by (simp_all add: iloc_to_def iloc_from_def)
  have window: "\<exists>d. data buffer' = Some d \<and> set d \<subseteq> set (take (i + 1) candles)"
    if i: "?w \<le> i" "i < length candles"
      and l: "replay_loop symbol tf indicator
          (CandleBuffer_seed buffer (iloc_to (warmup_candles c) candles), det, [])
          (take (i + 1 - ?w) (iloc_from (warmup_candles c) candles)) = Inr (buffer', det', sigs)"
    for i buffer indicator det buffer' det' sigs
  proof -
    let ?b = "CandleBuffer_seed buffer (take ?w candles)"
    have d0: "data ?b = Some (tail_df (max_size buffer) (prepare (take ?w candles)))"
      by (simp add: CandleBuffer_seed_def)
    have s0: "set (tail_df (max_size buffer) (prepare (take ?w candles))) \<subseteq> set (take ?w candles)"
      using tail_df_subset [of "max_size buffer" "prepare (take ?w candles)"]
      by (auto simp: prepare_set dropna_def)
    from replay_loop_inv [OF d0 l [unfolded to_eq from_eq]] obtain d where
      d: "data buffer' = Some d"
      and sub: "set d \<subseteq> set (tail_df (max_size buffer) (prepare (take ?w candles)))
                  \<union> set (take (i + 1 - ?w) (drop ?w candles))" by blast
    have split: "take (i + 1) candles = take ?w candles @ take (i + 1 - ?w) (drop ?w candles)"
      using i(1) by (metis add_diff_inverse_nat le_imp_less_Suc Suc_eq_plus1 not_less take_add
          le_add_diff_inverse trans_le_add1)
    from sub s0 have "set d \<subseteq> set (take (i + 1) candles)"
      unfolding split by auto
    with d show ?thesis by blast
  qed
  have stamps: "bar_time (candles ! ?w) \<le> timestamp s"
    if r: "run c symbol tf candles en = Inr sigs" and s: "s \<in> set sigs" for sigs s
  proof -
    let ?b = "CandleBuffer_seed \<lparr>max_size = buffer_size c, min_candles = DEFAULT_MIN, data = None\<rparr>
                (take ?w candles)"
    have d0: "data ?b = Some (tail_df (buffer_size c) (prepare (take ?w candles)))"
      by (simp add: CandleBuffer_seed_def)
    from r obtain b' det' where
      l: "replay_loop symbol tf \<lparr>ind_cfg = ichimoku c\<rparr>
            (?b, SignalDetector_init (Some (detector c)) en, []) (drop ?w candles)
          = Inr (b', det', sigs)"
      by (auto simp: run_def CandleBuffer_init_def IchimokuIndicator_init_def to_eq from_eq
          split: if_splits sum.splits)
    from replay_loop_inv [OF d0 l] s have "timestamp s \<in> bar_time ` set (drop ?w candles)"
      by auto
    then obtain k where k: "k < length candles - ?w"
      and t: "timestamp s = bar_time (candles ! (?w + k))"
      by (auto simp: in_set_conv_nth)
    from k have "?w + k < length (map bar_time candles)" by simp
    from sorted_nth_mono [OF assms(1) _ this, of ?w] k t show ?thesis by simp
  qed
  from window stamps show ?thesis by blast
qed


theorem no_look_ahead_witness:
  "sorted (map bar_time demo_candles) \<and> 0 \<le> warmup_candles demo_config \<and>
   run demo_config ''EURUSD'' ''H1'' demo_candles None = Inr demo_signals \<and>
   bar_time (demo_candles ! nat (warmup_candles demo_config)) = 77 \<and>
   map timestamp demo_signals = [78, 78] \<and>
   list_all (\<lambda>s. bar_time (demo_candles ! nat (warmup_candles demo_config)) \<le> timestamp s)
     demo_signals \<and>
   nat (warmup_candles demo_config) \<le> 77 \<and> 77 < length demo_candles \<and>
   (\<exists>buffer' det' sigs d.
      replay_loop ''EURUSD'' ''H1'' \<lparr>ind_cfg = ichimoku demo_config\<rparr>
        (CandleBuffer_seed default_buffer (iloc_to (warmup_candles demo_config) demo_candles),
         SignalDetector_init None None, [])
        (take (77 + 1 - nat (warmup_candles demo_config))
           (iloc_from (warmup_candles demo_config) demo_candles))
        = Inr (buffer', det', sigs) \<and>
      data buffer' = Some d \<and> set d \<subseteq> set (take (77 + 1) demo_candles))"
proof -
  have srt: "sorted (map bar_time demo_candles)"
    by code_simp
  have w0: "0 \<le> warmup_candles demo_config"
    and w1: "nat (warmup_candles demo_config) \<le> 77"
    by (simp_all add: demo_config_def)
  have len: "77 < length demo_candles"
    by (simp add: demo_candles_def flat_bars_def)
  have r: "run demo_config ''EURUSD'' ''H1'' demo_candles None = Inr demo_signals"
    by code_simp
  have first: "bar_time (demo_candles ! nat (warmup_candles demo_config)) = 77"
    by code_simp
  have stamps: "map timestamp demo_signals = [78, 78]"
    by (simp add: demo_signals_def)
  note t = no_look_ahead [OF srt w0, of "''EURUSD''" "''H1''" None]
  from t r have "\<forall>s\<in>set demo_signals.
      bar_time (demo_candles ! nat (warmup_candles demo_config)) \<le> timestamp s"
    by blast
  then have all: "list_all
      (\<lambda>s. bar_time (demo_candles ! nat (warmup_candles demo_config)) \<le> timestamp s) demo_signals"
    by (simp add: list_all_iff)
  let ?st = "(CandleBuffer_seed default_buffer (iloc_to (warmup_candles demo_config) demo_candles),
         SignalDetector_init None None, [])"
  have "data (fst ?st) \<noteq> None"
    by (simp add: CandleBuffer_seed_def)
  moreover have "timedelta_minutes (cooldown_minutes (det_cfg (fst (snd ?st)))) = Inr 1800000000"
    by (simp add: fresh_detector_cooldown)
  ultimately have "\<exists>st'. replay_loop ''EURUSD'' ''H1'' \<lparr>ind_cfg = ichimoku demo_config\<rparr> ?st
      (take (77 + 1 - nat (warmup_candles demo_config))
           (iloc_from (warmup_candles demo_config) demo_candles)) = Inr st'"
    by (rule replay_loop_returns)
  then obtain b1 det1 sigs1 where
    l: "replay_loop ''EURUSD'' ''H1'' \<lparr>ind_cfg = ichimoku demo_config\<rparr> ?st
          (take (77 + 1 - nat (warmup_candles demo_config))
             (iloc_from (warmup_candles demo_config) demo_candles)) = Inr (b1, det1, sigs1)"
    by (metis prod_cases3)
  from t w1 len l obtain d where
    "data b1 = Some d" "set d \<subseteq> set (take (77 + 1) demo_candles)"
    by blast
  with l have ex: "\<exists>buffer' det' sigs d.
      replay_loop ''EURUSD'' ''H1'' \<lparr>ind_cfg = ichimoku demo_config\<rparr> ?st
        (take (77 + 1 - nat (warmup_candles demo_config))
           (iloc_from (warmup_candles demo_config) demo_candles))
        = Inr (buffer', det', sigs) \<and>
      data buffer' = Some d \<and> set d \<subseteq> set (take (77 + 1) demo_candles)"
    by blast
  from srt w0 r first stamps all w1 len ex show ?thesis by blast
qed



section \<open>The lagging line at the newest candle\<close>

text \<open>
  \<open>calculate\<close> shifts the closes back by \<open>chikou_shift\<close>, so with a positive shift the
  chikou of the newest candle is undefined in every snapshot; \<open>check\<close> then skips the
  snapshot, and a replay with such a configuration (the default one has shift 26)
  returns no signal. The concrete replay used above therefore has chikou shift 0.
\<close>

lemma shift_values_back_last:
  assumes "0 < k" and "xs \<noteq> []"
  shows "shift_values (- k) xs ! (length xs - 1) = None"
proof -
  let ?n = "length xs"
  have "length (drop (nat k) xs) \<le> ?n - 1"
    using assms by (cases xs) auto
  moreover have "?n - 1 - length (drop (nat k) xs) < min (nat k) ?n"
    using assms by (cases xs) auto
  ultimately show ?thesis
    using assms(1) by (simp add: shift_values_def nth_append)
qed

lemma shift_back_last:
  assumes "0 < k" and "xs \<noteq> []" and "shift (- k) xs = Inr ys"
  shows "ys ! (length xs - 1) = None"
  using assms shift_values_back_last [OF assms(1,2)]
  by (auto simp: shift_def split: if_splits)

lemma latest_chikou_undefined:
  assumes "0 < chikou_shift (ind_cfg self)" and "latest_values self candles = Inr v"
  shows "chikou v = None"
proof (cases "length candles < 2")
  case True
  with latest_values_short [OF True assms(2)] show ?thesis
    by (simp add: nan_dict_def)
next
  case False
  then have ne: "map bar_close candles \<noteq> []" by auto
  from assms(2) False obtain ichi where
    c: "calculate self candles = Inr ichi" and v: "chikou v = col_chikou ichi ! (length candles - 1)"
    by (auto simp: latest_values_def Let_def split: sum.splits)
  from c have "shift (- chikou_shift (ind_cfg self)) (map bar_close candles)
      = Inr (col_chikou ichi)"
    by (auto simp: calculate_def split: sum.splits)
  from shift_back_last [OF assms(1) ne this] v show ?thesis by simp
qed

lemma replay_step_silent:
  assumes "0 < chikou_shift (ind_cfg indicator)"
    and "replay_step symbol tf indicator (b, det, sigs) row = Inr (b', det', sigs')"
  shows "sigs' = sigs"
proof -
  have "check det symbol tf v now = Inr ([], det)" if "latest_values indicator w = Inr v" for v w now
    using latest_chikou_undefined [OF assms(1) that]
    by (simp add: check_def has_nan_def)
  with assms(2) show ?thesis
    by (auto simp: replay_step_def split: sum.splits if_splits)
qed

lemma replay_loop_silent:
  assumes "0 < chikou_shift (ind_cfg indicator)"
  shows "replay_loop symbol tf indicator (b, det, sigs) rows = Inr (b', det', sigs') \<Longrightarrow> sigs' = sigs"
proof (induction rows arbitrary: b det sigs)
  case Nil
  then show ?case by simp
next
  case (Cons row rows)
  from Cons.prems obtain b1 det1 sigs1 where
    s: "replay_step symbol tf indicator (b, det, sigs) row = Inr (b1, det1, sigs1)"
    and l: "replay_loop symbol tf indicator (b1, det1, sigs1) rows = Inr (b', det', sigs')"
    by (auto split: sum.splits)
  from replay_step_silent [OF assms s] Cons.IH [OF l] show ?case by simp
qed

lemma run_silent_with_chikou_shift:
  assumes "0 < chikou_shift (ichimoku c)" and "run c symbol tf candles en = Inr sigs"
  shows "sigs = []"
proof -
  from assms(2) obtain b0 det0 rows b' det' where
    "replay_loop symbol tf \<lparr>ind_cfg = ichimoku c\<rparr> (b0, det0, []) rows = Inr (b', det', sigs)"
    by (auto simp: run_def CandleBuffer_init_def IchimokuIndicator_init_def
        split: if_splits sum.splits)
  from replay_loop_silent [OF _ this] assms(1) show ?thesis by simp
qed


end

